theory Spec2Isabelle
  imports Main "HOL-Library.Word"
begin

unbundle bit_operations_syntax

section \<open>The KIO worker for bup archives (src/kioslave/bupslave.cpp)\<close>

text \<open>
  The worker \<open>BupSlave\<close> serves one request at a time. Its members are the two name
  caches, the repository pointer and the open-file pointer. Everything it calls that is
  not in bupslave.cpp (the node tree of bupvfs, Qt, the C library) is a field of the
  environment record below: the worker is verified for every behaviour of these
  collaborators.
\<close>

subsection \<open>Data\<close>

text \<open>The KIO error codes the worker names. A return value of 0 (success) of
  \<open>File::seek\<close> and \<open>File::read\<close> is \<open>None\<close>, a non-zero code is \<open>Some\<close> of it.\<close>

datatype kio_error =
    ERR_SLAVE_DEFINED
  | ERR_DOES_NOT_EXIST
  | ERR_IS_DIRECTORY
  | ERR_IS_FILE
  | ERR_CANNOT_OPEN_FOR_WRITING
  | ERR_CANNOT_OPEN_FOR_READING
  | ERR_COULD_NOT_READ
  | ERR_COULD_NOT_SEEK
  | ERR_NO_CONTENT
  | ERR_OTHER nat    \<comment> \<open>any other code\<close>

type_synonym retval = "kio_error option"

type_synonym filesize_t = "64 word"

type_synonym uid_t = "32 word"

text \<open>The dynamic type of a node, as \<open>qobject_cast\<close> tests it.\<close>

datatype node_kind = Directory | File | Symlink

text \<open>The attributes of a \<open>Node\<close> that the worker reads (\<open>nodeName\<close> is the node's
  \<open>objectName()\<close>).\<close>

record node =
  nodeName :: string
  kind :: node_kind
  mMode :: "64 word"
  mMimeType :: string
  mUid :: "64 word"
  mGid :: "64 word"
  mAtime :: "64 word"
  mMtime :: "64 word"
  mSymlinkTarget :: string

text \<open>A \<open>Repository\<close> object: its \<open>objectName()\<close> is the root path, \<open>rid\<close> is the
  identity of the object (two objects opened on the same directory differ in it).\<close>

record repository =
  objectName :: string
  isValid :: bool
  rid :: nat

text \<open>A pointer to a node: the repository object that owns the node, and the node in
  its tree.\<close>

record nodeptr =
  owner :: nat
  key :: nat

record url =
  host :: string
  stripped_path :: string  \<comment> \<open>\<open>adjusted(QUrl::StripTrailingSlash).path()\<close>\<close>
  display :: string        \<comment> \<open>\<open>toDisplayString()\<close>\<close>

text \<open>The calls that leave the worker, in the order they are made.\<close>

datatype call =
    SeekCall nodeptr filesize_t
  | ReadCall nodeptr "int option"
  | Getpwuid uid_t
  | Getgrgid uid_t

datatype uds_field =
    UDS_NAME | UDS_LINK_DEST | UDS_FILE_TYPE | UDS_ACCESS | UDS_SIZE | UDS_MIME_TYPE
  | UDS_ACCESS_TIME | UDS_MODIFICATION_TIME | UDS_USER | UDS_GROUP

datatype uds_value = UDS_Str string | UDS_Num "64 word"

type_synonym uds_entry = "(uds_field \<times> uds_value) list"

text \<open>The signals of \<open>SlaveBase\<close> the worker emits.\<close>

datatype event =
    Error kio_error string
  | MimeType string
  | TotalSize filesize_t
  | CanResume
  | Data string
  | ProcessedSize filesize_t
  | Finished
  | ListEntry uds_entry
  | StatEntry uds_entry
  | Position filesize_t
  | Opened

text \<open>The collaborators. \<open>'f\<close> is the internal state of a \<open>File\<close> object (its read
  position and whatever else it keeps).\<close>

record 'f env =
  file_exists :: "string \<Rightarrow> bool"                                   \<comment> \<open>\<open>QFile::exists\<close>\<close>
  repo_valid :: "nat \<Rightarrow> string \<Rightarrow> bool"                             \<comment> \<open>does the archive open\<close>
  resolve :: "repository \<Rightarrow> string list \<Rightarrow> bool \<Rightarrow> nat option"    \<comment> \<open>\<open>Repository::resolve\<close>\<close>
  node_of :: "nodeptr \<Rightarrow> node"
  parent :: "nodeptr \<Rightarrow> nodeptr"                                     \<comment> \<open>\<open>QObject::parent\<close>\<close>
  node_resolve :: "nodeptr \<Rightarrow> string \<Rightarrow> bool \<Rightarrow> nodeptr option"    \<comment> \<open>\<open>Node::resolve\<close>\<close>
  subNodes :: "nodeptr \<Rightarrow> nodeptr list"                              \<comment> \<open>after \<open>reload()\<close>\<close>
  completePath :: "nodeptr \<Rightarrow> string"
  fsize :: "nodeptr \<Rightarrow> filesize_t"                                  \<comment> \<open>\<open>File::size\<close>\<close>
  finit :: "nodeptr \<Rightarrow> 'f"                                          \<comment> \<open>a fresh File object\<close>
  fseek :: "nodeptr \<Rightarrow> 'f \<Rightarrow> filesize_t \<Rightarrow> retval \<times> 'f"             \<comment> \<open>\<open>File::seek\<close>\<close>
  fread :: "nodeptr \<Rightarrow> 'f \<Rightarrow> int option \<Rightarrow> retval \<times> string \<times> 'f"  \<comment> \<open>\<open>File::read\<close>\<close>
  getpwuid :: "uid_t \<Rightarrow> string option"
  getgrgid :: "uid_t \<Rightarrow> string option"
  toULongLong :: "string \<Rightarrow> filesize_t option"                      \<comment> \<open>\<open>QString::toULongLong\<close>\<close>
  toInt :: "string \<Rightarrow> int"                                         \<comment> \<open>\<open>QString::toInt\<close>\<close>

text \<open>The members of \<open>BupSlave\<close>, and the heap around them: the state of the File
  objects it has touched, the counter that names the next Repository object, the
  Repository objects that have been deleted (with all their nodes), and the calls made so
  far.\<close>

record 'f slave =
  mUsercache :: "uid_t \<rightharpoonup> string"
  mGroupcache :: "uid_t \<rightharpoonup> string"
  mRepository :: "repository option"
  mOpenFile :: "nodeptr option"
  files :: "nodeptr \<rightharpoonup> 'f"
  next_rid :: nat
  deleted :: "nat set"
  calls :: "call list"

text \<open>The constructor: no repository, no open file, empty caches.\<close>

definition BupSlave :: "'f slave" where
  "BupSlave = \<lparr>mUsercache = Map.empty, mGroupcache = Map.empty, mRepository = None,
     mOpenFile = None, files = Map.empty, next_rid = 0, deleted = {}, calls = []\<rparr>"

subsection \<open>The name caches\<close>

text \<open>\<open>QString::number\<close> of an unsigned id: its decimal digits.\<close>

fun decimal :: "nat \<Rightarrow> string" where
  "decimal n = (if n < 10 then [''0123456789'' ! n]
                else decimal (n div 10) @ [''0123456789'' ! (n mod 10)])"

declare decimal.simps [simp del]

definition getUserName :: "'f env \<Rightarrow> uid_t \<Rightarrow> 'f slave \<Rightarrow> string \<times> 'f slave" where
  "getUserName E pUid st =
     (case mUsercache st pUid of
        Some name \<Rightarrow> (name, st)
      | None \<Rightarrow>
          (let st1 = st\<lparr>calls := calls st @ [Getpwuid pUid]\<rparr> in
           case getpwuid E pUid of
             Some pw_name \<Rightarrow> (pw_name, st1\<lparr>mUsercache := (mUsercache st1)(pUid \<mapsto> pw_name)\<rparr>)
           | None \<Rightarrow> (decimal (unat pUid), st1)))"

definition getGroupName :: "'f env \<Rightarrow> uid_t \<Rightarrow> 'f slave \<Rightarrow> string \<times> 'f slave" where
  "getGroupName E pGid st =
     (case mGroupcache st pGid of
        Some name \<Rightarrow> (name, st)
      | None \<Rightarrow>
          (let st1 = st\<lparr>calls := calls st @ [Getgrgid pGid]\<rparr> in
           case getgrgid E pGid of
             Some gr_name \<Rightarrow> (gr_name, st1\<lparr>mGroupcache := (mGroupcache st1)(pGid \<mapsto> gr_name)\<rparr>)
           | None \<Rightarrow> (decimal (unat pGid), st1)))"

subsection \<open>Strings\<close>

text \<open>\<open>QString::startsWith\<close>, \<open>QString::split\<close> with \<open>SkipEmptyParts\<close> and
  \<open>QStringList::join\<close>.\<close>

definition startsWith :: "string \<Rightarrow> string \<Rightarrow> bool" where
  "startsWith s p = (take (length p) s = p)"

fun split_from :: "char \<Rightarrow> string \<Rightarrow> string \<Rightarrow> string list" where
  "split_from sep cur [] = (if cur = [] then [] else [cur])"
| "split_from sep cur (c # cs) =
     (if c = sep then (if cur = [] then split_from sep [] cs else cur # split_from sep [] cs)
      else split_from sep (cur @ [c]) cs)"

definition split_skip_empty :: "string \<Rightarrow> string list" where
  "split_skip_empty s = split_from CHR ''/'' [] s"

fun join :: "string \<Rightarrow> string list \<Rightarrow> string" where
  "join sep [] = []"
| "join sep [x] = x"
| "join sep (x # y # xs) = x @ sep @ join sep (y # xs)"

subsection \<open>The repository locator\<close>

text \<open>Lines 288 to 296 of \<open>checkCorrectRepository\<close>: the path, made absolute and
  slash-terminated, with a host put in front as the first component.\<close>

definition normalized_path :: "url \<Rightarrow> string" where
  "normalized_path pUrl =
     (if host pUrl \<noteq> [] then ''/'' @ host pUrl @ stripped_path pUrl @ ''/''
      else (let lPath = stripped_path pUrl @ ''/''
            in if startsWith lPath ''/'' then lPath else CHR ''/'' # lPath))"

text \<open>The marker test of lines 316 to 319.\<close>

definition has_markers :: "'f env \<Rightarrow> string \<Rightarrow> bool" where
  "has_markers E lRepoPath =
     ((file_exists E (lRepoPath @ ''objects'') \<and> file_exists E (lRepoPath @ ''refs'')) \<or>
      (file_exists E (lRepoPath @ ''.git/objects'') \<and> file_exists E (lRepoPath @ ''.git/refs'')))"

text \<open>The loop of lines 312 to 323. It returns the first marked directory and the
  components left after it, or nothing when the components run out.\<close>

fun find_root :: "'f env \<Rightarrow> string \<Rightarrow> string list \<Rightarrow> (string \<times> string list) option" where
  "find_root E lRepoPath [] = None"
| "find_root E lRepoPath (c # cs) =
     (let lRepoPath' = lRepoPath @ c @ ''/''
      in if has_markers E lRepoPath' then Some (lRepoPath', cs)
         else find_root E lRepoPath' cs)"

text \<open>Modelled from the spec: the constructor \<open>Repository(nullptr, path)\<close> of bupvfs,
  which is not in bupslave.cpp. The repository keeps the path it is given as its root
  path (its \<open>objectName()\<close>) and is valid when the archive opens.\<close>

definition Repository :: "'f env \<Rightarrow> string \<Rightarrow> nat \<Rightarrow> repository" where
  "Repository E pRepositoryPath i =
     \<lparr>objectName = pRepositoryPath, isValid = repo_valid E i pRepositoryPath, rid = i\<rparr>"

text \<open>Lines 310 to 324: the search for a new repository.\<close>

definition discover :: "'f env \<Rightarrow> string \<Rightarrow> 'f slave \<Rightarrow> bool \<times> string list \<times> 'f slave" where
  "discover E lPath st =
     (case find_root E ''/'' (split_skip_empty lPath) of
        None \<Rightarrow> (False, [], st)
      | Some (lRepoPath, pPathInRepository) \<Rightarrow>
          (let r = Repository E lRepoPath (next_rid st)
           in (isValid r, pPathInRepository,
               st\<lparr>mRepository := Some r, next_rid := Suc (next_rid st)\<rparr>)))"

definition checkCorrectRepository ::
  "'f env \<Rightarrow> url \<Rightarrow> 'f slave \<Rightarrow> bool \<times> string list \<times> 'f slave" where
  "checkCorrectRepository E pUrl st =
     (let lPath = normalized_path pUrl in
      case mRepository st of
        None \<Rightarrow> discover E lPath st
      | Some r \<Rightarrow>
          if isValid r then
            (if startsWith lPath (objectName r)
             then (True, split_skip_empty (drop (length (objectName r)) lPath), st)
             else discover E lPath
                    (st\<lparr>mRepository := None, deleted := insert (rid r) (deleted st)\<rparr>))
          else discover E lPath st)"

subsection \<open>Calls into the node tree\<close>

text \<open>\<open>Repository::resolve\<close>: the node found belongs to the repository asked.\<close>

definition Repository_resolve ::
  "'f env \<Rightarrow> repository \<Rightarrow> string list \<Rightarrow> bool \<Rightarrow> nodeptr option" where
  "Repository_resolve E r pPathList pFollowLinks =
     map_option (\<lambda>k. \<lparr>owner = rid r, key = k\<rparr>) (resolve E r pPathList pFollowLinks)"

definition file_state :: "'f env \<Rightarrow> 'f slave \<Rightarrow> nodeptr \<Rightarrow> 'f" where
  "file_state E st p = (case files st p of Some f \<Rightarrow> f | None \<Rightarrow> finit E p)"

text \<open>\<open>File::seek\<close> and \<open>File::read\<close> through a pointer. A node lives as long as its
  repository: a call through a pointer into a deleted repository is a use after free, and
  has no result (\<open>None\<close>).\<close>

definition File_seek ::
  "'f env \<Rightarrow> nodeptr \<Rightarrow> filesize_t \<Rightarrow> 'f slave \<Rightarrow> (retval \<times> 'f slave) option" where
  "File_seek E p pOffset st =
     (if owner p \<in> deleted st then None
      else case fseek E p (file_state E st p) pOffset of
        (rv, f') \<Rightarrow> Some (rv, st\<lparr>files := (files st)(p \<mapsto> f'),
                                  calls := calls st @ [SeekCall p pOffset]\<rparr>))"

definition File_read ::
  "'f env \<Rightarrow> nodeptr \<Rightarrow> int option \<Rightarrow> 'f slave \<Rightarrow> (retval \<times> string \<times> 'f slave) option" where
  "File_read E p pReadSize st =
     (if owner p \<in> deleted st then None
      else case fread E p (file_state E st p) pReadSize of
        (rv, chunk, f') \<Rightarrow> Some (rv, chunk, st\<lparr>files := (files st)(p \<mapsto> f'),
                                         calls := calls st @ [ReadCall p pReadSize]\<rparr>))"

subsection \<open>The entry encoder\<close>

definition S_IFMT :: "64 word" where
  "S_IFMT = 0xF000"

definition createUDSEntry ::
  "'f env \<Rightarrow> nodeptr \<Rightarrow> int \<Rightarrow> 'f slave \<Rightarrow> uds_entry \<times> 'f slave" where
  "createUDSEntry E pNode pDetails st =
     (let target = mSymlinkTarget (node_of E pNode);
          e1 = [(UDS_NAME, UDS_Str (nodeName (node_of E pNode)))];
          e2 = (if target \<noteq> [] then e1 @ [(UDS_LINK_DEST, UDS_Str target)] else e1);
          pNode' = (if target \<noteq> [] \<and> pDetails > 1
                    then (case node_resolve E (parent E pNode) target True of
                            Some lNode \<Rightarrow> lNode
                          | None \<Rightarrow> pNode)
                    else pNode);
          n = node_of E pNode';
          e3 = e2 @ [(UDS_FILE_TYPE, UDS_Num (mMode n AND S_IFMT)),
                     (UDS_ACCESS, UDS_Num (mMode n AND 0xFFF))]   \<comment> \<open>07777\<close>
      in if pDetails > 0 then
           (let lSize = (if kind n = File then fsize E pNode' else 0) in
            case getUserName E (ucast (mUid n)) st of (user, st1) \<Rightarrow>
            case getGroupName E (ucast (mGid n)) st1 of (grp, st2) \<Rightarrow>
              (e3 @ [(UDS_SIZE, UDS_Num lSize),
                     (UDS_MIME_TYPE, UDS_Str (mMimeType n)),
                     (UDS_ACCESS_TIME, UDS_Num (mAtime n)),
                     (UDS_MODIFICATION_TIME, UDS_Num (mMtime n)),
                     (UDS_USER, UDS_Str user),
                     (UDS_GROUP, UDS_Str grp)], st2))
         else (e3, st))"

subsection \<open>The requests\<close>

text \<open>
  A request handler returns the signals it emits, in order, and the state it leaves.
  \<open>None\<close> is a call without a result: a read loop that never ends, the dereference of
  a null repository pointer, or the use of a node that has been deleted.
\<close>

type_synonym 'f outcome = "(event list \<times> 'f slave) option"

definition not_found_message :: "url \<Rightarrow> string" where
  "not_found_message pUrl = ''No bup repository found.'' @ [CHR 0x0A] @ display pUrl"

definition close :: "'f slave \<Rightarrow> 'f outcome" where
  "close st = Some ([Finished], st\<lparr>mOpenFile := None\<rparr>)"

text \<open>The loop of lines 132 to 136. It ends with the first non-zero return value of
  \<open>File::read\<close>, and returns it with the processed size, the signals and the state.\<close>

partial_function (option) get_loop ::
  "'f env \<Rightarrow> nodeptr \<Rightarrow> filesize_t \<Rightarrow> event list \<Rightarrow> 'f slave
     \<Rightarrow> (kio_error \<times> filesize_t \<times> event list \<times> 'f slave) option" where
  "get_loop E lFile lProcessedSize evs st =
     (case File_read E lFile None st of
        None \<Rightarrow> None
      | Some (None, lResultArray, st') \<Rightarrow>
          get_loop E lFile (lProcessedSize + of_nat (length lResultArray))
            (evs @ [Data lResultArray,
                    ProcessedSize (lProcessedSize + of_nat (length lResultArray))]) st'
      | Some (Some lRetVal, lResultArray, st') \<Rightarrow> Some (lRetVal, lProcessedSize, evs, st'))"

declare get_loop.simps [code]

text \<open>Lines 116 to 128: the seek to the start, whose return value is not looked at, and
  the resume offset. It returns the signals, the processed-size baseline and the state.\<close>

definition get_resume ::
  "'f env \<Rightarrow> nodeptr \<Rightarrow> string \<Rightarrow> 'f slave \<Rightarrow> (event list \<times> filesize_t \<times> 'f slave) option" where
  "get_resume E lFile lResumeOffset st =
     (case File_seek E lFile 0 st of
        None \<Rightarrow> None
      | Some (rv, st1) \<Rightarrow>
          if lResumeOffset \<noteq> [] then
            (case toULongLong E lResumeOffset of
               None \<Rightarrow> Some ([], 0, st1)
             | Some lOffset \<Rightarrow>
                 if lOffset < fsize E lFile then
                   (case File_seek E lFile lOffset st1 of
                      None \<Rightarrow> None
                    | Some (None, st2) \<Rightarrow> Some ([CanResume], lOffset, st2)
                    | Some (Some e, st2) \<Rightarrow> Some ([], 0, st2))
                 else Some ([], 0, st1))
          else Some ([], 0, st1))"

text \<open>Lines 137 to 143: what follows the loop.\<close>

definition get_finish ::
  "string list \<Rightarrow> kio_error \<times> filesize_t \<times> event list \<times> 'f slave \<Rightarrow> event list \<times> 'f slave" where
  "get_finish lPathInRepo y =
     (case y of (lRetVal, lProcessedSize, evs, st) \<Rightarrow>
        if lRetVal = ERR_NO_CONTENT
        then (evs @ [Data [], ProcessedSize lProcessedSize, Finished], st)
        else (evs @ [Error lRetVal (join ''/'' lPathInRepo)], st))"

definition get :: "'f env \<Rightarrow> url \<Rightarrow> string \<Rightarrow> 'f slave \<Rightarrow> 'f outcome" where
  "get E pUrl lResumeOffset st =
     (case checkCorrectRepository E pUrl st of (found, lPathInRepo, st1) \<Rightarrow>
      if \<not> found then Some ([Error ERR_SLAVE_DEFINED (not_found_message pUrl)], st1)
      else (case mRepository st1 of None \<Rightarrow> None | Some r \<Rightarrow>
      (case Repository_resolve E r lPathInRepo True of
        None \<Rightarrow> Some ([Error ERR_DOES_NOT_EXIST (join ''/'' lPathInRepo)], st1)
      | Some lNode \<Rightarrow>
          if kind (node_of E lNode) \<noteq> File
          then Some ([Error ERR_IS_DIRECTORY (join ''/'' lPathInRepo)], st1)
          else
            (let header = [MimeType (mMimeType (node_of E lNode)), TotalSize (fsize E lNode)] in
             case get_resume E lNode lResumeOffset st1 of
               None \<Rightarrow> None
             | Some (resumed, lProcessedSize, st2) \<Rightarrow>
                 map_option (get_finish lPathInRepo)
                   (get_loop E lNode lProcessedSize (header @ resumed) st2)))))"

text \<open>The loop of lines 171 to 174.\<close>

fun list_entries ::
  "'f env \<Rightarrow> nodeptr list \<Rightarrow> int \<Rightarrow> 'f slave \<Rightarrow> event list \<times> 'f slave" where
  "list_entries E [] lDetails st = ([], st)"
| "list_entries E (n # ns) lDetails st =
     (case createUDSEntry E n lDetails st of (lEntry, st1) \<Rightarrow>
      case list_entries E ns lDetails st1 of (evs, st2) \<Rightarrow> (ListEntry lEntry # evs, st2))"

definition details_level :: "'f env \<Rightarrow> string \<Rightarrow> int" where
  "details_level E sDetails = (if sDetails = [] then 2 else toInt E sDetails)"

definition listDir :: "'f env \<Rightarrow> url \<Rightarrow> string \<Rightarrow> 'f slave \<Rightarrow> 'f outcome" where
  "listDir E pUrl sDetails st =
     (case checkCorrectRepository E pUrl st of (found, lPathInRepo, st1) \<Rightarrow>
      if \<not> found then Some ([Error ERR_SLAVE_DEFINED (not_found_message pUrl)], st1)
      else (case mRepository st1 of None \<Rightarrow> None | Some r \<Rightarrow>
      (case Repository_resolve E r lPathInRepo True of
        None \<Rightarrow> Some ([Error ERR_DOES_NOT_EXIST (join ''/'' lPathInRepo)], st1)
      | Some lNode \<Rightarrow>
          if kind (node_of E lNode) \<noteq> Directory
          then Some ([Error ERR_IS_FILE (join ''/'' lPathInRepo)], st1)
          else
            (case list_entries E (subNodes E lNode) (details_level E sDetails) st1 of
               (evs, st2) \<Rightarrow> Some (evs @ [Finished], st2)))))"

text \<open>\<open>QIODevice::WriteOnly\<close> is the bit 0x0002 of the open mode.\<close>

definition "open" :: "'f env \<Rightarrow> url \<Rightarrow> 32 word \<Rightarrow> 'f slave \<Rightarrow> 'f outcome" where
  "open E pUrl pMode st =
     (if pMode AND 2 \<noteq> 0 then Some ([Error ERR_CANNOT_OPEN_FOR_WRITING (display pUrl)], st)
      else
      case checkCorrectRepository E pUrl st of (found, lPathInRepo, st1) \<Rightarrow>
      if \<not> found then Some ([Error ERR_SLAVE_DEFINED (not_found_message pUrl)], st1)
      else (case mRepository st1 of None \<Rightarrow> None | Some r \<Rightarrow>
      (case Repository_resolve E r lPathInRepo True of
        None \<Rightarrow> Some ([Error ERR_DOES_NOT_EXIST (join ''/'' lPathInRepo)], st1)
      | Some lNode \<Rightarrow>
          if kind (node_of E lNode) \<noteq> File
          then Some ([Error ERR_IS_DIRECTORY (join ''/'' lPathInRepo)], st1)
          else
            (case File_seek E lNode 0 st1 of
               None \<Rightarrow> None
             | Some (Some e, st2) \<Rightarrow>
                 Some ([Error ERR_CANNOT_OPEN_FOR_READING (display pUrl)], st2)
             | Some (None, st2) \<Rightarrow>
                 Some ([MimeType (mMimeType (node_of E lNode)), TotalSize (fsize E lNode),
                        Position 0, Opened],
                       st2\<lparr>mOpenFile := Some lNode\<rparr>)))))"

text \<open>The loop of lines 221 to 224. \<open>pSize\<close> is an unsigned 64-bit count, and the bound
  handed to \<open>File::read\<close> is its cast to a 32-bit int. It returns the last return value.\<close>

partial_function (option) read_loop ::
  "'f env \<Rightarrow> nodeptr \<Rightarrow> filesize_t \<Rightarrow> event list \<Rightarrow> 'f slave
     \<Rightarrow> (retval \<times> event list \<times> 'f slave) option" where
  "read_loop E f pSize evs st =
     (if pSize > 0 then
        (case File_read E f (Some (sint (ucast pSize :: 32 word))) st of
           None \<Rightarrow> None
         | Some (None, lResultArray, st') \<Rightarrow>
             read_loop E f (pSize - of_nat (length lResultArray)) (evs @ [Data lResultArray]) st'
         | Some (Some lRetVal, lResultArray, st') \<Rightarrow> Some (Some lRetVal, evs, st'))
      else Some (None, evs, st))"

declare read_loop.simps [code]

definition read :: "'f env \<Rightarrow> filesize_t \<Rightarrow> 'f slave \<Rightarrow> 'f outcome" where
  "read E pSize st =
     (case mOpenFile st of
        None \<Rightarrow> Some ([Error ERR_COULD_NOT_READ []], st)
      | Some f \<Rightarrow>
          (case read_loop E f pSize [] st of
             None \<Rightarrow> None
           | Some (None, evs, st1) \<Rightarrow> Some (evs @ [Data [], Finished], st1)
           | Some (Some lRetVal, evs, st1) \<Rightarrow>
               Some (evs @ [Error lRetVal (completePath E f)], st1)))"

definition seek :: "'f env \<Rightarrow> filesize_t \<Rightarrow> 'f slave \<Rightarrow> 'f outcome" where
  "seek E pOffset st =
     (case mOpenFile st of
        None \<Rightarrow> Some ([Error ERR_COULD_NOT_SEEK []], st)
      | Some f \<Rightarrow>
          (case File_seek E f pOffset st of
             None \<Rightarrow> None
           | Some (Some e, st1) \<Rightarrow> Some ([Error ERR_COULD_NOT_SEEK (completePath E f)], st1)
           | Some (None, st1) \<Rightarrow> Some ([Position pOffset], st1)))"

text \<open>\<open>stat\<close> and \<open>mimetype\<close> call \<open>resolve\<close> without its second argument: the final
  symlink is not followed.\<close>

definition stat :: "'f env \<Rightarrow> url \<Rightarrow> string \<Rightarrow> 'f slave \<Rightarrow> 'f outcome" where
  "stat E pUrl sDetails st =
     (case checkCorrectRepository E pUrl st of (found, lPathInRepo, st1) \<Rightarrow>
      if \<not> found then Some ([Error ERR_SLAVE_DEFINED (not_found_message pUrl)], st1)
      else (case mRepository st1 of None \<Rightarrow> None | Some r \<Rightarrow>
      (case Repository_resolve E r lPathInRepo False of
        None \<Rightarrow> Some ([Error ERR_DOES_NOT_EXIST (join ''/'' lPathInRepo)], st1)
      | Some lNode \<Rightarrow>
          (case createUDSEntry E lNode (details_level E sDetails) st1 of
             (lUDSEntry, st2) \<Rightarrow> Some ([StatEntry lUDSEntry, Finished], st2)))))"

definition mimetype :: "'f env \<Rightarrow> url \<Rightarrow> 'f slave \<Rightarrow> 'f outcome" where
  "mimetype E pUrl st =
     (case checkCorrectRepository E pUrl st of (found, lPathInRepo, st1) \<Rightarrow>
      if \<not> found then Some ([Error ERR_SLAVE_DEFINED (not_found_message pUrl)], st1)
      else (case mRepository st1 of None \<Rightarrow> None | Some r \<Rightarrow>
      (case Repository_resolve E r lPathInRepo False of
        None \<Rightarrow> Some ([Error ERR_DOES_NOT_EXIST (join ''/'' lPathInRepo)], st1)
      | Some lNode \<Rightarrow> Some ([MimeType (mMimeType (node_of E lNode)), Finished], st1))))"

subsection \<open>A session\<close>

text \<open>The commands the dispatch loop of \<open>SlaveBase\<close> hands to the worker, with the
  metadata (\<open>resume\<close>, \<open>details\<close>) each one reads.\<close>

datatype request =
    Get url string
  | ListDir url string
  | Open url "32 word"
  | Read filesize_t
  | Seek filesize_t
  | Stat url string
  | Mimetype url
  | Close

fun dispatch :: "'f env \<Rightarrow> request \<Rightarrow> 'f slave \<Rightarrow> 'f outcome" where
  "dispatch E (Get u resume) st = get E u resume st"
| "dispatch E (ListDir u details) st = listDir E u details st"
| "dispatch E (Open u m) st = open E u m st"
| "dispatch E (Read n) st = read E n st"
| "dispatch E (Seek n) st = seek E n st"
| "dispatch E (Stat u details) st = stat E u details st"
| "dispatch E (Mimetype u) st = mimetype E u st"
| "dispatch E Close st = close st"

text \<open>A session serves its requests one after the other; it yields the signals of each
  request and the final state.\<close>

fun run :: "'f env \<Rightarrow> request list \<Rightarrow> 'f slave \<Rightarrow> (event list list \<times> 'f slave) option" where
  "run E [] st = Some ([], st)"
| "run E (q # qs) st =
     (case dispatch E q st of
        None \<Rightarrow> None
      | Some (evs, st1) \<Rightarrow>
          (case run E qs st1 of
             None \<Rightarrow> None
           | Some (evss, st2) \<Rightarrow> Some (evs # evss, st2)))"

subsection \<open>Notions used in the statements\<close>

text \<open>Two states with the same repository, the same open file, the same counter and the
  same deleted objects.\<close>

definition same_pointers :: "'f slave \<Rightarrow> 'f slave \<Rightarrow> bool" where
  "same_pointers st st' =
     (mRepository st' = mRepository st \<and> mOpenFile st' = mOpenFile st \<and>
      next_rid st' = next_rid st \<and> deleted st' = deleted st)"


text \<open>No entry of the name caches is removed or changed.\<close>

definition caches_kept :: "'f slave \<Rightarrow> 'f slave \<Rightarrow> bool" where
  "caches_kept st st' =
     ((\<forall>i n. mUsercache st i = Some n \<longrightarrow> mUsercache st' i = Some n) \<and>
      (\<forall>i n. mGroupcache st i = Some n \<longrightarrow> mGroupcache st' i = Some n))"

text \<open>The root path of the open repository, if there is one, ends with a slash.\<close>

definition root_slash_terminated :: "'f slave \<Rightarrow> bool" where
  "root_slash_terminated st =
     (case mRepository st of None \<Rightarrow> True | Some r \<Rightarrow> objectName r \<noteq> [] \<and> last (objectName r) = CHR ''/'')"

text \<open>The candidate directories of a path, from the root outward: the \<open>k\<close>-th one is
  made of the first \<open>k\<close> components, and is paired with the components after them.\<close>

definition candidates :: "string list \<Rightarrow> (string \<times> string list) list" where
  "candidates comps =
     map (\<lambda>k. (''/'' @ concat (map (\<lambda>c. c @ ''/'') (take k comps)), drop k comps))
       [1 ..< Suc (length comps)]"

text \<open>The fast path of \<open>checkCorrectRepository\<close> applies: a valid repository is open and
  the normalized path starts with its root path.\<close>

definition under_open_repository :: "'f slave \<Rightarrow> url \<Rightarrow> bool" where
  "under_open_repository st pUrl =
     (case mRepository st of
        None \<Rightarrow> False
      | Some r \<Rightarrow> isValid r \<and> startsWith (normalized_path pUrl) (objectName r))"

text \<open>What lines 298 to 308 do to the state when the fast path does not apply: a valid
  repository is deleted, an invalid one is left in place.\<close>

definition discard_repository :: "'f slave \<Rightarrow> 'f slave" where
  "discard_repository st =
     (case mRepository st of
        None \<Rightarrow> st
      | Some r \<Rightarrow>
          if isValid r then st\<lparr>mRepository := None, deleted := insert (rid r) (deleted st)\<rparr>
          else st)"

text \<open>The open file belongs to the repository object that is open now.\<close>

definition handle_owned :: "'f slave \<Rightarrow> bool" where
  "handle_owned st =
     (case mOpenFile st of
        None \<Rightarrow> True
      | Some f \<Rightarrow> (case mRepository st of None \<Rightarrow> False | Some r \<Rightarrow> owner f = rid r))"

text \<open>The data signals of a transfer: each chunk is followed by the processed size, which
  is the baseline plus the lengths of the chunks so far (in 64-bit arithmetic).\<close>

fun progress :: "filesize_t \<Rightarrow> string list \<Rightarrow> event list" where
  "progress p [] = []"
| "progress p (c # cs) =
     Data c # ProcessedSize (p + of_nat (length c)) # progress (p + of_nat (length c)) cs"

text \<open>The processed sizes a response reports, in order.\<close>

fun reports :: "event list \<Rightarrow> filesize_t list" where
  "reports [] = []"
| "reports (ProcessedSize p # evs) = p # reports evs"
| "reports (e # evs) = reports evs"


text \<open>The fields of an entry other than the name and the link destination.\<close>

definition attribute_fields :: "uds_entry \<Rightarrow> uds_entry" where
  "attribute_fields e = filter (\<lambda>x. fst x \<noteq> UDS_NAME \<and> fst x \<noteq> UDS_LINK_DEST) e"

subsection \<open>An example archive\<close>

text \<open>Modelled from the spec: \<open>File.seek\<close> and \<open>File.read\<close> of bupvfs, which are not in
  bupslave.cpp. The state of a File is its position. A seek to an offset in \<open>[0, size]\<close>
  succeeds, one beyond fails. A read returns at most the bytes asked from the position and
  advances by them; at the end of the file it returns end of data, \<open>ERR_NO_CONTENT\<close>.
  The spec does not say what a bound that is not positive asks for: here it is no bound,
  as when none is given.\<close>

definition spec_seek :: "string \<Rightarrow> nat \<Rightarrow> filesize_t \<Rightarrow> retval \<times> nat" where
  "spec_seek content pos pOffset =
     (if unat pOffset \<le> length content then (None, unat pOffset)
      else (Some ERR_COULD_NOT_SEEK, pos))"

definition spec_read :: "string \<Rightarrow> nat \<Rightarrow> int option \<Rightarrow> retval \<times> string \<times> nat" where
  "spec_read content pos pReadSize =
     (if length content \<le> pos then (Some ERR_NO_CONTENT, [], pos)
      else (let k = (case pReadSize of
                       None \<Rightarrow> length content - pos
                     | Some m \<Rightarrow>
                         if 0 < m then min (nat m) (length content - pos)
                         else length content - pos)
            in (None, take k (drop pos content), pos + k)))"

text \<open>Decimal strings, for \<open>QString::toULongLong\<close> and \<open>QString::toInt\<close> on the inputs
  of the examples.\<close>

definition digit_of :: "char \<Rightarrow> nat option" where
  "digit_of c =
     map_of [(CHR ''0'', 0), (CHR ''1'', 1), (CHR ''2'', 2), (CHR ''3'', 3), (CHR ''4'', 4),
             (CHR ''5'', 5), (CHR ''6'', 6), (CHR ''7'', 7), (CHR ''8'', 8), (CHR ''9'', 9)] c"

fun digits_value :: "nat \<Rightarrow> string \<Rightarrow> nat option" where
  "digits_value acc [] = Some acc"
| "digits_value acc (c # cs) =
     (case digit_of c of
        None \<Rightarrow> None
      | Some d \<Rightarrow> digits_value (10 * acc + d) cs)"

definition parse_decimal :: "string \<Rightarrow> nat option" where
  "parse_decimal s = (if s = [] then None else digits_value 0 s)"

definition ex_node :: "nodeptr \<Rightarrow> node" where
  "ex_node p =
     (let n = \<lparr>nodeName = ''/'', kind = Directory, mMode = 0x41ED, mMimeType = ''inode/directory'',
                mUid = 1000, mGid = 100, mAtime = 1500000000, mMtime = 1400000000,
                mSymlinkTarget = []\<rparr>
      in if key p = 1 then n\<lparr>nodeName := ''docs''\<rparr>
         else if key p = 2 then
           n\<lparr>nodeName := ''a.txt'', kind := File, mMode := 0x81A4, mMimeType := ''text/plain''\<rparr>
         else if key p = 3 then
           n\<lparr>nodeName := ''link'', kind := Symlink, mMode := 0xA1FF,
             mMimeType := ''inode/symlink'', mUid := 4242, mSymlinkTarget := ''docs/a.txt''\<rparr>
         else if key p = 4 then
           n\<lparr>nodeName := ''dangling'', kind := Symlink, mMode := 0xA1FF,
             mMimeType := ''inode/symlink'', mSymlinkTarget := ''nowhere''\<rparr>
         else if key p = 5 then
           n\<lparr>nodeName := ''faulty.bin'', kind := File, mMode := 0x81A4,
             mMimeType := ''application/octet-stream''\<rparr>
         else if key p = 6 then
           n\<lparr>nodeName := ''moving.bin'', kind := File, mMode := 0x81A4,
             mMimeType := ''application/octet-stream''\<rparr>
         else n)"

definition ex_content :: "nodeptr \<Rightarrow> string" where
  "ex_content p =
     (if key p = 2 then ''abc'' else if key p = 5 \<or> key p = 6 then ''vwxyz'' else [])"

definition ex_resolve :: "string list \<Rightarrow> bool \<Rightarrow> nat option" where
  "ex_resolve pPathList pFollowLinks =
     (if pPathList = [] then Some 0
      else if pPathList = [''docs''] then Some 1
      else if pPathList = [''docs'', ''a.txt''] then Some 2
      else if pPathList = [''link''] then Some (if pFollowLinks then 2 else 3)
      else if pPathList = [''dangling''] then Some 4
      else if pPathList = [''faulty.bin''] then Some 5
      else if pPathList = [''moving.bin''] then Some 6
      else None)"

text \<open>Two archives, \<open>/backup/\<close> (markers under \<open>.git\<close>) and \<open>/other/\<close>, with the same
  tree, and a directory \<open>/corrupt/\<close> that has the markers and does not open. The files
  \<open>faulty.bin\<close> and \<open>moving.bin\<close> sit on a store that fails every seek to an offset
  other than 0: the failed seek leaves the position of \<open>faulty.bin\<close> where it was and
  moves the position of \<open>moving.bin\<close> to the offset. A decimal string that does not fit
  the type is not parsed: \<open>toULongLong\<close> fails and \<open>toInt\<close> gives 0.\<close>

definition ex_env :: "nat env" where
  "ex_env =
     \<lparr>file_exists = (\<lambda>p. p \<in> set [''/backup/.git/objects'', ''/backup/.git/refs'',
                                    ''/other/objects'', ''/other/refs'',
                                    ''/corrupt/objects'', ''/corrupt/refs'']),
      repo_valid = (\<lambda>i p. p \<noteq> ''/corrupt/''),
      resolve = (\<lambda>r. ex_resolve),
      node_of = ex_node,
      parent = (\<lambda>p. p\<lparr>key := 0\<rparr>),
      node_resolve = (\<lambda>p target pFollowLinks.
         if target = ''docs/a.txt'' then Some (p\<lparr>key := 2\<rparr>) else None),
      subNodes = (\<lambda>p. if key p = 0 then [p\<lparr>key := 1\<rparr>, p\<lparr>key := 3\<rparr>] else []),
      completePath = (\<lambda>p. nodeName (ex_node p)),
      fsize = (\<lambda>p. of_nat (length (ex_content p))),
      finit = (\<lambda>p. 0),
      fseek = (\<lambda>p pos pOffset.
         if key p = 5 \<and> pOffset \<noteq> 0 then (Some ERR_COULD_NOT_SEEK, pos)
         else if key p = 6 \<and> pOffset \<noteq> 0 then (Some ERR_COULD_NOT_SEEK, unat pOffset)
         else spec_seek (ex_content p) pos pOffset),
      fread = (\<lambda>p. spec_read (ex_content p)),
      getpwuid = (\<lambda>u. if u = 1000 then Some ''simon'' else None),
      getgrgid = (\<lambda>g. if g = 100 then Some ''users'' else None),
      toULongLong = (\<lambda>s. case parse_decimal s of
                            None \<Rightarrow> None
                          | Some n \<Rightarrow> if n < 2 ^ 64 then Some (of_nat n) else None),
      toInt = (\<lambda>s. case parse_decimal s of
                      None \<Rightarrow> 0
                    | Some n \<Rightarrow> if n < 2 ^ 31 then int n else 0)\<rparr>"

definition ex_url :: "string \<Rightarrow> url" where
  "ex_url p = \<lparr>host = [], stripped_path = p, display = ''bup://'' @ p\<rparr>"

text \<open>The state after \<open>a.txt\<close> of the archive \<open>/backup/\<close> has been opened by a new worker.\<close>

definition ex_opened :: "nat slave" where
  "ex_opened =
     BupSlave\<lparr>mRepository := Some \<lparr>objectName = ''/backup/'', isValid = True, rid = 0\<rparr>,
       mOpenFile := Some \<lparr>owner = 0, key = 2\<rparr>,
       files := [\<lparr>owner = 0, key = 2\<rparr> \<mapsto> 0],
       next_rid := 1,
       calls := [SeekCall \<lparr>owner = 0, key = 2\<rparr> 0]\<rparr>"

text \<open>The state after a new worker has located the archive \<open>/backup/\<close>.\<close>

definition ex_located :: "nat slave" where
  "ex_located =
     BupSlave\<lparr>mRepository := Some \<lparr>objectName = ''/backup/'', isValid = True, rid = 0\<rparr>,
       next_rid := 1\<rparr>"

section \<open>Properties\<close>

subsection \<open>The repository locator\<close>

lemma upt_1_Suc_Suc: "[1 ..< Suc (Suc n)] = 1 # map Suc [1 ..< Suc n]"
  by (simp add: map_Suc_upt upt_conv_Cons del: upt_Suc)

lemma find_root_candidates:
  "find_root E lRepoPath comps =
     find (\<lambda>(d, rest). has_markers E d)
       (map (\<lambda>k. (lRepoPath @ concat (map (\<lambda>c. c @ ''/'') (take k comps)), drop k comps))
          [1 ..< Suc (length comps)])"
proof (induction comps arbitrary: lRepoPath)
  case Nil
  then show ?case by simp
next
  case (Cons c cs)
  show ?case
    unfolding length_Cons upt_1_Suc_Suc
    by (simp add: Cons.IH Let_def comp_def del: upt_Suc)
qed

lemma find_root_from_root:
  "find_root E ''/'' comps = find (\<lambda>(d, rest). has_markers E d) (candidates comps)"
  by (simp add: find_root_candidates candidates_def del: upt_Suc)

lemma find_root_slash:
  "find_root E lRepoPath comps = Some (d, rest) \<Longrightarrow> d \<noteq> [] \<and> last d = CHR ''/''"
  by (induction comps arbitrary: lRepoPath) (auto simp: Let_def split: if_splits)

lemma checkCorrectRepository_miss:
  "\<not> under_open_repository st pUrl \<Longrightarrow>
     checkCorrectRepository E pUrl st = discover E (normalized_path pUrl) (discard_repository st)"
  by (auto simp: under_open_repository_def checkCorrectRepository_def discard_repository_def
      Let_def discover_def split: option.splits)

lemma checkCorrectRepository_hit:
  "mRepository st = Some r \<Longrightarrow> isValid r \<Longrightarrow>
   startsWith (normalized_path pUrl) (objectName r) \<Longrightarrow>
     checkCorrectRepository E pUrl st =
       (True, split_skip_empty (drop (length (objectName r)) (normalized_path pUrl)), st)"
  by (simp add: checkCorrectRepository_def Let_def)

lemma next_rid_discard_repository: "next_rid (discard_repository st) = next_rid st"
  by (simp add: discard_repository_def split: option.splits)

text \<open>
  C1. When the fast path does not apply (no valid repository is open, or the normalized
  path does not start with its root path), the locator takes the candidate directories of
  the path from the root outward and stops at the first one that holds \<open>objects\<close> and
  \<open>refs\<close>, or \<open>.git/objects\<close> and \<open>.git/refs\<close>. A Repository is created on that
  directory and becomes the worker's repository; the result is whether it is valid, with the
  components after the directory. When no candidate has the markers the result is false.
  In both cases a repository that was valid before has been deleted. A false result makes \<open>get\<close> answer with the
  error "No bup repository found".
\<close>

theorem locate_new_repository:
  assumes "\<not> under_open_repository st pUrl"
  shows "checkCorrectRepository E pUrl st =
     (case find (\<lambda>(d, rest). has_markers E d)
             (candidates (split_skip_empty (normalized_path pUrl))) of
        None \<Rightarrow> (False, [], discard_repository st)
      | Some (d, rest) \<Rightarrow>
          (repo_valid E (next_rid st) d, rest,
           (discard_repository st)
             \<lparr>mRepository := Some \<lparr>objectName = d, isValid = repo_valid E (next_rid st) d,
                                     rid = next_rid st\<rparr>,
              next_rid := Suc (next_rid st)\<rparr>)) \<and>
    (\<not> fst (checkCorrectRepository E pUrl st) \<longrightarrow>
       get E pUrl lResumeOffset st =
         Some ([Error ERR_SLAVE_DEFINED (not_found_message pUrl)],
               snd (snd (checkCorrectRepository E pUrl st))))"
proof
  show "checkCorrectRepository E pUrl st =
     (case find (\<lambda>(d, rest). has_markers E d)
             (candidates (split_skip_empty (normalized_path pUrl))) of
        None \<Rightarrow> (False, [], discard_repository st)
      | Some (d, rest) \<Rightarrow>
          (repo_valid E (next_rid st) d, rest,
           (discard_repository st)
             \<lparr>mRepository := Some \<lparr>objectName = d, isValid = repo_valid E (next_rid st) d,
                                     rid = next_rid st\<rparr>,
              next_rid := Suc (next_rid st)\<rparr>))"
    unfolding checkCorrectRepository_miss [OF assms] discover_def find_root_from_root
    by (simp add: next_rid_discard_repository Repository_def Let_def split: option.splits)
  show "\<not> fst (checkCorrectRepository E pUrl st) \<longrightarrow>
       get E pUrl lResumeOffset st =
         Some ([Error ERR_SLAVE_DEFINED (not_found_message pUrl)],
               snd (snd (checkCorrectRepository E pUrl st)))"
    by (simp add: get_def split: prod.splits)
qed

theorem locate_new_repository_witness:
  "\<not> under_open_repository (BupSlave :: nat slave) (ex_url ''/backup/docs/a.txt'') \<and>
   checkCorrectRepository ex_env (ex_url ''/backup/docs/a.txt'') BupSlave =
     (True, [''docs'', ''a.txt''],
      BupSlave\<lparr>mRepository := Some \<lparr>objectName = ''/backup/'', isValid = True, rid = 0\<rparr>,
        next_rid := 1\<rparr>) \<and>
   \<not> under_open_repository (BupSlave :: nat slave) (ex_url ''/corrupt/x'') \<and>
   checkCorrectRepository ex_env (ex_url ''/corrupt/x'') BupSlave =
     (False, [''x''],
      BupSlave\<lparr>mRepository := Some \<lparr>objectName = ''/corrupt/'', isValid = False, rid = 0\<rparr>,
        next_rid := 1\<rparr>) \<and>
   \<not> under_open_repository (BupSlave :: nat slave) (ex_url ''/home/u'') \<and>
   checkCorrectRepository ex_env (ex_url ''/home/u'') BupSlave = (False, [], BupSlave) \<and>
   get ex_env (ex_url ''/home/u'') [] BupSlave =
     Some ([Error ERR_SLAVE_DEFINED (not_found_message (ex_url ''/home/u''))], BupSlave)"
proof -
  let ?s = "BupSlave :: nat slave"
  have h: "\<not> under_open_repository ?s u" for u
    by (simp add: under_open_repository_def BupSlave_def)
  have c1: "candidates (split_skip_empty (normalized_path (ex_url ''/backup/docs/a.txt''))) =
     [(''/backup/'', [''docs'', ''a.txt'']), (''/backup/docs/'', [''a.txt'']),
      (''/backup/docs/a.txt/'', [])]"
    by (simp add: candidates_def split_skip_empty_def normalized_path_def ex_url_def
        startsWith_def upt_rec [of _ "Suc _"] del: upt_Suc)
  have c2: "candidates (split_skip_empty (normalized_path (ex_url ''/corrupt/x''))) =
     [(''/corrupt/'', [''x'']), (''/corrupt/x/'', [])]"
    by (simp add: candidates_def split_skip_empty_def normalized_path_def ex_url_def
        startsWith_def upt_rec [of _ "Suc _"] del: upt_Suc)
  have c3: "candidates (split_skip_empty (normalized_path (ex_url ''/home/u''))) =
     [(''/home/'', [''u'']), (''/home/u/'', [])]"
    by (simp add: candidates_def split_skip_empty_def normalized_path_def ex_url_def
        startsWith_def upt_rec [of _ "Suc _"] del: upt_Suc)
  have m: "has_markers ex_env ''/backup/''" "has_markers ex_env ''/corrupt/''"
    "\<not> has_markers ex_env ''/home/''" "\<not> has_markers ex_env ''/home/u/''"
    by (simp_all add: has_markers_def ex_env_def)
  have v: "repo_valid ex_env 0 ''/backup/''" "\<not> repo_valid ex_env 0 ''/corrupt/''"
    "next_rid ?s = 0" "discard_repository ?s = ?s"
    by (simp_all add: ex_env_def BupSlave_def discard_repository_def)
  from h [of "ex_url ''/backup/docs/a.txt''"] h [of "ex_url ''/corrupt/x''"]
    h [of "ex_url ''/home/u''"]
    locate_new_repository [where st = ?s and pUrl = "ex_url ''/backup/docs/a.txt''" and E = ex_env]
    locate_new_repository [where st = ?s and pUrl = "ex_url ''/corrupt/x''" and E = ex_env]
    locate_new_repository [where st = ?s and pUrl = "ex_url ''/home/u''" and E = ex_env
      and lResumeOffset = "[]"]
  show ?thesis
    by (simp add: c1 c2 c3 m v)
qed

subsection \<open>What the requests leave untouched\<close>

lemma same_pointers_refl [simp]: "same_pointers st st"
  by (simp add: same_pointers_def)

lemma same_pointers_trans: "same_pointers a b \<Longrightarrow> same_pointers b c \<Longrightarrow> same_pointers a c"
  by (simp add: same_pointers_def)

lemma File_seek_pointers: "File_seek E p n st = Some (rv, st') \<Longrightarrow> same_pointers st st'"
  by (auto simp: File_seek_def same_pointers_def split: prod.splits if_splits)

lemma File_read_pointers: "File_read E p n st = Some (rv, chunk, st') \<Longrightarrow> same_pointers st st'"
  by (auto simp: File_read_def same_pointers_def split: prod.splits if_splits)

lemma get_loop_pointers:
  "get_loop E f p evs st = Some y \<Longrightarrow> same_pointers st (snd (snd (snd y)))"
proof (induction rule: get_loop.raw_induct [rotated 1, consumes 1])
  case (1 get_loop E f p evs st y)
  from 1(2) obtain rv chunk st' where r: "File_read E f None st = Some (rv, chunk, st')"
    by (cases "File_read E f None st") auto
  show ?case
  proof (cases rv)
    case None
    with 1(2) r have "get_loop E f (p + of_nat (length chunk))
            (evs @ [Data chunk, ProcessedSize (p + of_nat (length chunk))]) st' = Some y"
      by simp
    then have "same_pointers st' (snd (snd (snd y)))" by (rule 1(1))
    with File_read_pointers [OF r] show ?thesis by (rule same_pointers_trans)
  next
    case (Some e)
    with 1(2) r File_read_pointers [OF r] show ?thesis by auto
  qed
qed

lemma read_loop_pointers:
  "read_loop E f n evs st = Some y \<Longrightarrow> same_pointers st (snd (snd y))"
proof (induction rule: read_loop.raw_induct [rotated 1, consumes 1])
  case (1 read_loop E f n evs st y)
  show ?case
  proof (cases "n > 0")
    case False
    with 1(2) show ?thesis by auto
  next
    case True
    from 1(2) True obtain rv chunk st' where
      r: "File_read E f (Some (sint (ucast n :: 32 word))) st = Some (rv, chunk, st')"
      by (cases "File_read E f (Some (sint (ucast n :: 32 word))) st") auto
    show ?thesis
    proof (cases rv)
      case None
      with 1(2) r True have "read_loop E f (n - of_nat (length chunk)) (evs @ [Data chunk]) st' = Some y"
        by simp
      then have "same_pointers st' (snd (snd y))" by (rule 1(1))
      with File_read_pointers [OF r] show ?thesis by (rule same_pointers_trans)
    next
      case (Some e)
      with 1(2) r True File_read_pointers [OF r] show ?thesis by auto
    qed
  qed
qed

lemma getUserName_pointers: "getUserName E i st = (n, st') \<Longrightarrow> same_pointers st st'"
  by (auto simp: getUserName_def same_pointers_def Let_def split: option.splits)

lemma getGroupName_pointers: "getGroupName E i st = (n, st') \<Longrightarrow> same_pointers st st'"
  by (auto simp: getGroupName_def same_pointers_def Let_def split: option.splits)

lemma createUDSEntry_pointers: "createUDSEntry E p d st = (e, st') \<Longrightarrow> same_pointers st st'"
  unfolding createUDSEntry_def Let_def
  by (auto split: if_splits prod.splits
      dest!: getUserName_pointers getGroupName_pointers intro: same_pointers_trans)

lemma list_entries_pointers: "list_entries E ns d st = (evs, st') \<Longrightarrow> same_pointers st st'"
proof (induction ns arbitrary: st evs)
  case Nil
  then show ?case by simp
next
  case (Cons n ns)
  then show ?case
    by (auto split: prod.splits dest!: createUDSEntry_pointers intro: same_pointers_trans)
qed

lemma checkCorrectRepository_found:
  "checkCorrectRepository E pUrl st = (True, comps, st1) \<Longrightarrow> \<exists>r. mRepository st1 = Some r \<and> isValid r"
  by (auto simp: checkCorrectRepository_def discover_def Let_def split: option.splits if_splits)


lemma discover_root:
  assumes "discover E lPath st = (found, comps, st1)" and "root_slash_terminated st"
  shows "root_slash_terminated st1"
proof (cases "find_root E ''/'' (split_skip_empty lPath)")
  case None
  with assms show ?thesis by (simp add: discover_def)
next
  case (Some a)
  obtain d rest where a: "a = (d, rest)" by (cases a)
  from Some a have "d \<noteq> [] \<and> last d = CHR ''/''" by (auto dest: find_root_slash)
  with assms(1) Some a show ?thesis
    by (auto simp: discover_def Let_def root_slash_terminated_def Repository_def)
qed

lemma checkCorrectRepository_root:
  assumes "checkCorrectRepository E pUrl st = (found, comps, st1)" and "root_slash_terminated st"
  shows "root_slash_terminated st1"
proof (cases "under_open_repository st pUrl")
  case True
  with assms show ?thesis
    by (auto simp: under_open_repository_def checkCorrectRepository_def Let_def
        split: option.splits)
next
  case False
  have "root_slash_terminated (discard_repository st)"
    using assms(2) by (simp add: discard_repository_def root_slash_terminated_def split: option.splits)
  with assms(1) show ?thesis
    unfolding checkCorrectRepository_miss [OF False] by (rule discover_root)
qed

lemma same_pointers_root:
  "same_pointers st st' \<Longrightarrow> root_slash_terminated st \<Longrightarrow> root_slash_terminated st'"
  by (simp add: same_pointers_def root_slash_terminated_def)

lemma get_resume_pointers:
  "get_resume E f res st = Some (evs, p, st') \<Longrightarrow> same_pointers st st'"
  unfolding get_resume_def Let_def
  by (cases "File_seek E f 0 st")
     (auto split: if_splits option.splits prod.splits dest!: File_seek_pointers
       simp: same_pointers_def)

lemma get_finish_state: "get_finish p y = (evs, st') \<Longrightarrow> st' = snd (snd (snd y))"
  by (auto simp: get_finish_def split: prod.splits if_splits)

lemma get_pointers:
  "get E u res st = Some (evs, st') \<Longrightarrow>
     same_pointers (snd (snd (checkCorrectRepository E u st))) st'"
  unfolding get_def
  by (auto split: prod.splits if_splits option.splits
      dest!: get_loop_pointers get_resume_pointers get_finish_state simp: same_pointers_def)

lemma listDir_pointers:
  "listDir E u d st = Some (evs, st') \<Longrightarrow>
     same_pointers (snd (snd (checkCorrectRepository E u st))) st'"
  unfolding listDir_def
  by (auto split: prod.splits if_splits option.splits
      dest!: list_entries_pointers simp: same_pointers_def)

lemma stat_pointers:
  "stat E u d st = Some (evs, st') \<Longrightarrow>
     same_pointers (snd (snd (checkCorrectRepository E u st))) st'"
  unfolding stat_def
  by (auto split: prod.splits if_splits option.splits
      dest!: createUDSEntry_pointers simp: same_pointers_def)

lemma mimetype_pointers:
  "mimetype E u st = Some (evs, st') \<Longrightarrow>
     same_pointers (snd (snd (checkCorrectRepository E u st))) st'"
  unfolding mimetype_def
  by (auto split: prod.splits if_splits option.splits simp: same_pointers_def)

lemma read_pointers: "read E n st = Some (evs, st') \<Longrightarrow> same_pointers st st'"
  unfolding read_def
  by (auto split: prod.splits if_splits option.splits
      dest!: read_loop_pointers simp: same_pointers_def)

lemma seek_pointers: "seek E n st = Some (evs, st') \<Longrightarrow> same_pointers st st'"
  unfolding seek_def
  by (auto split: prod.splits if_splits option.splits
      dest!: File_seek_pointers simp: same_pointers_def)

lemma open_repository:
  "open E u m st = Some (evs, st') \<Longrightarrow>
     mRepository st' = mRepository st \<and> next_rid st' = next_rid st \<or>
     mRepository st' = mRepository (snd (snd (checkCorrectRepository E u st))) \<and>
     next_rid st' = next_rid (snd (snd (checkCorrectRepository E u st)))"
  unfolding open_def
  by (auto split: prod.splits if_splits option.splits
      dest!: File_seek_pointers simp: same_pointers_def)

lemma dispatch_root:
  assumes "dispatch E q st = Some (evs, st')" and "root_slash_terminated st"
  shows "root_slash_terminated st'"
proof -
  have c: "root_slash_terminated (snd (snd (checkCorrectRepository E u st)))" for u
    using checkCorrectRepository_root [OF _ assms(2), of E u]
    by (cases "checkCorrectRepository E u st") auto
  show ?thesis
  proof (cases q)
    case (Get u res)
    with assms(1) have "same_pointers (snd (snd (checkCorrectRepository E u st))) st'"
      by (auto dest: get_pointers)
    then show ?thesis using c by (rule same_pointers_root)
  next
    case (ListDir u d)
    with assms(1) have "same_pointers (snd (snd (checkCorrectRepository E u st))) st'"
      by (auto dest: listDir_pointers)
    then show ?thesis using c by (rule same_pointers_root)
  next
    case (Open u m)
    with assms(1) have "open E u m st = Some (evs, st')" by simp
    from open_repository [OF this] c [of u] assms(2) show ?thesis
      by (auto simp: root_slash_terminated_def)
  next
    case (Read n)
    with assms(1) have "same_pointers st st'" by (auto dest: read_pointers)
    then show ?thesis using assms(2) by (rule same_pointers_root)
  next
    case (Seek n)
    with assms(1) have "same_pointers st st'" by (auto dest: seek_pointers)
    then show ?thesis using assms(2) by (rule same_pointers_root)
  next
    case (Stat u d)
    with assms(1) have "same_pointers (snd (snd (checkCorrectRepository E u st))) st'"
      by (auto dest: stat_pointers)
    then show ?thesis using c by (rule same_pointers_root)
  next
    case (Mimetype u)
    with assms(1) have "same_pointers (snd (snd (checkCorrectRepository E u st))) st'"
      by (auto dest: mimetype_pointers)
    then show ?thesis using c by (rule same_pointers_root)
  next
    case Close
    with assms show ?thesis by (auto simp: close_def root_slash_terminated_def)
  qed
qed

lemma run_root:
  "run E qs st = Some (evss, st') \<Longrightarrow> root_slash_terminated st \<Longrightarrow> root_slash_terminated st'"
proof (induction qs arbitrary: st evss)
  case Nil
  then show ?case by simp
next
  case (Cons q qs)
  from Cons.prems(1) obtain evs st1 evss1 where
    d: "dispatch E q st = Some (evs, st1)" and r: "run E qs st1 = Some (evss1, st')"
    by (auto split: option.splits)
  from dispatch_root [OF d Cons.prems(2)] have "root_slash_terminated st1" .
  with r show ?case by (rule Cons.IH)
qed

lemma split_from_components:
  "sep \<notin> set cur \<Longrightarrow> \<forall>c \<in> set (split_from sep cur s). c \<noteq> [] \<and> sep \<notin> set c"
proof (induction s arbitrary: cur)
  case Nil
  then show ?case by simp
next
  case (Cons a s)
  have e: "\<forall>c \<in> set (split_from sep [] s). c \<noteq> [] \<and> sep \<notin> set c"
    by (rule Cons.IH) simp
  show ?case
  proof (cases "a = sep")
    case True
    with e Cons.prems show ?thesis by simp
  next
    case False
    with Cons.prems have "sep \<notin> set (cur @ [a])" by simp
    from Cons.IH [OF this] False show ?thesis by simp
  qed
qed

lemma startsWith_append: "startsWith s p \<longleftrightarrow> (\<exists>t. s = p @ t)"
  unfolding startsWith_def
  by (metis append_eq_conv_conj append_take_drop_id)

lemma ex_run_mimetype:
  "run ex_env [Mimetype (ex_url ''/backup/docs'')] BupSlave =
     Some ([[MimeType ''inode/directory'', Finished]],
       BupSlave\<lparr>mRepository := Some \<lparr>objectName = ''/backup/'', isValid = True, rid = 0\<rparr>,
         next_rid := 1\<rparr>)"
  by (simp add: mimetype_def checkCorrectRepository_def BupSlave_def discover_def
      normalized_path_def ex_url_def startsWith_def split_skip_empty_def Let_def
      has_markers_def ex_env_def Repository_def Repository_resolve_def ex_resolve_def ex_node_def)

text \<open>
  C7. In every state a session reaches from the constructor, the root path of the
  repository, if one is open, is not empty and ends with a slash. When the fast path
  applies to a request (the repository is valid and the normalized path starts with the
  root path), the normalized path is the root path followed by a remainder, the locator
  answers with the remainder split at slashes and leaves the state as it is, and no
  component of the answer is empty or contains a slash.
\<close>

theorem root_path_is_prefix:
  "run E qs BupSlave = Some (evss, st) \<and> mRepository st = Some r \<longrightarrow>
     objectName r \<noteq> [] \<and> last (objectName r) = CHR ''/'' \<and>
     (under_open_repository st pUrl \<longrightarrow>
        (\<exists>rest. normalized_path pUrl = objectName r @ rest \<and>
           checkCorrectRepository E pUrl st = (True, split_skip_empty rest, st) \<and>
           (\<forall>c \<in> set (split_skip_empty rest). c \<noteq> [] \<and> CHR ''/'' \<notin> set c)))"
proof (intro impI, elim conjE)
  assume r: "run E qs BupSlave = Some (evss, st)" and m: "mRepository st = Some r"
  have "root_slash_terminated (BupSlave :: 'a slave)"
    by (simp add: root_slash_terminated_def BupSlave_def)
  with r have "root_slash_terminated st" by (rule run_root)
  with m have s: "objectName r \<noteq> [] \<and> last (objectName r) = CHR ''/''"
    by (simp add: root_slash_terminated_def)
  have f: "\<exists>rest. normalized_path pUrl = objectName r @ rest \<and>
           checkCorrectRepository E pUrl st = (True, split_skip_empty rest, st) \<and>
           (\<forall>c \<in> set (split_skip_empty rest). c \<noteq> [] \<and> CHR ''/'' \<notin> set c)"
    if u: "under_open_repository st pUrl"
  proof -
    from u m have v: "isValid r" and p: "startsWith (normalized_path pUrl) (objectName r)"
      by (simp_all add: under_open_repository_def)
    from p obtain rest where rest: "normalized_path pUrl = objectName r @ rest"
      by (auto simp: startsWith_append)
    have "checkCorrectRepository E pUrl st = (True, split_skip_empty rest, st)"
      using checkCorrectRepository_hit [OF m v p, of E] by (simp add: rest)
    moreover have "\<forall>c \<in> set (split_skip_empty rest). c \<noteq> [] \<and> CHR ''/'' \<notin> set c"
      using split_from_components [of "CHR ''/''" "[]" rest]
      by (simp add: split_skip_empty_def)
    ultimately show ?thesis using rest by blast
  qed
  from s f show "objectName r \<noteq> [] \<and> last (objectName r) = CHR ''/'' \<and>
     (under_open_repository st pUrl \<longrightarrow>
        (\<exists>rest. normalized_path pUrl = objectName r @ rest \<and>
           checkCorrectRepository E pUrl st = (True, split_skip_empty rest, st) \<and>
           (\<forall>c \<in> set (split_skip_empty rest). c \<noteq> [] \<and> CHR ''/'' \<notin> set c)))"
    by blast
qed


theorem root_path_is_prefix_witness:
  "run ex_env [Mimetype (ex_url ''/backup/docs'')] BupSlave =
     Some ([[MimeType ''inode/directory'', Finished]],
       BupSlave\<lparr>mRepository := Some \<lparr>objectName = ''/backup/'', isValid = True, rid = 0\<rparr>,
         next_rid := 1\<rparr>) \<and>
   under_open_repository
     (BupSlave\<lparr>mRepository := Some \<lparr>objectName = ''/backup/'', isValid = True, rid = 0\<rparr>,
         next_rid := 1\<rparr> :: nat slave) (ex_url ''/backup/docs/a.txt'') \<and>
   last ''/backup/'' = CHR ''/'' \<and>
   checkCorrectRepository ex_env (ex_url ''/backup/docs/a.txt'')
     (BupSlave\<lparr>mRepository := Some \<lparr>objectName = ''/backup/'', isValid = True, rid = 0\<rparr>,
         next_rid := 1\<rparr>) =
     (True, [''docs'', ''a.txt''],
      BupSlave\<lparr>mRepository := Some \<lparr>objectName = ''/backup/'', isValid = True, rid = 0\<rparr>,
         next_rid := 1\<rparr>)"
proof -
  let ?r = "\<lparr>objectName = ''/backup/'', isValid = True, rid = 0\<rparr>"
  let ?st = "BupSlave\<lparr>mRepository := Some ?r, next_rid := 1\<rparr> :: nat slave"
  let ?u = "ex_url ''/backup/docs/a.txt''"
  have m: "mRepository ?st = Some ?r" by simp
  have n: "normalized_path ?u = ''/backup/docs/a.txt/''"
    by (simp add: normalized_path_def ex_url_def startsWith_def)
  have u: "under_open_repository ?st ?u"
    by (simp add: under_open_repository_def n startsWith_def)
  have s: "split_skip_empty ''docs/a.txt/'' = [''docs'', ''a.txt'']"
    by (simp add: split_skip_empty_def)
  from root_path_is_prefix [of ex_env "[Mimetype (ex_url ''/backup/docs'')]" _ ?st ?r ?u]
    ex_run_mimetype m u
  have "objectName ?r \<noteq> [] \<and> last (objectName ?r) = CHR ''/'' \<and>
     (\<exists>rest. normalized_path ?u = objectName ?r @ rest \<and>
           checkCorrectRepository ex_env ?u ?st = (True, split_skip_empty rest, ?st))"
    by blast
  with ex_run_mimetype u s show ?thesis
    by (auto simp: n)
qed

subsection \<open>The name caches\<close>

lemma getUserName_cached:
  "mUsercache st pUid = Some name \<Longrightarrow> getUserName E pUid st = (name, st)"
  by (simp add: getUserName_def)

lemma getGroupName_cached:
  "mGroupcache st pGid = Some name \<Longrightarrow> getGroupName E pGid st = (name, st)"
  by (simp add: getGroupName_def)

lemma decimal_4242: "decimal 4242 = ''4242''"
  by (simp add: decimal.simps)

lemma caches_kept_refl [simp]: "caches_kept st st"
  by (simp add: caches_kept_def)

lemma caches_kept_trans: "caches_kept a b \<Longrightarrow> caches_kept b c \<Longrightarrow> caches_kept a c"
  by (simp add: caches_kept_def)

lemma caches_kept_eq:
  "mUsercache st' = mUsercache st \<Longrightarrow> mGroupcache st' = mGroupcache st \<Longrightarrow> caches_kept st st'"
  by (simp add: caches_kept_def)

lemma File_seek_caches: "File_seek E p n st = Some (rv, st') \<Longrightarrow> caches_kept st st'"
  by (auto simp: File_seek_def caches_kept_def split: prod.splits if_splits)

lemma File_read_caches: "File_read E p n st = Some (rv, chunk, st') \<Longrightarrow> caches_kept st st'"
  by (auto simp: File_read_def caches_kept_def split: prod.splits if_splits)

lemma get_loop_caches:
  "get_loop E f p evs st = Some y \<Longrightarrow> caches_kept st (snd (snd (snd y)))"
proof (induction rule: get_loop.raw_induct [rotated 1, consumes 1])
  case (1 get_loop E f p evs st y)
  from 1(2) obtain rv chunk st' where r: "File_read E f None st = Some (rv, chunk, st')"
    by (cases "File_read E f None st") auto
  show ?case
  proof (cases rv)
    case None
    with 1(2) r have "get_loop E f (p + of_nat (length chunk))
            (evs @ [Data chunk, ProcessedSize (p + of_nat (length chunk))]) st' = Some y"
      by simp
    then have "caches_kept st' (snd (snd (snd y)))" by (rule 1(1))
    with File_read_caches [OF r] show ?thesis by (rule caches_kept_trans)
  next
    case (Some e)
    with 1(2) r File_read_caches [OF r] show ?thesis by auto
  qed
qed

lemma read_loop_caches:
  "read_loop E f n evs st = Some y \<Longrightarrow> caches_kept st (snd (snd y))"
proof (induction rule: read_loop.raw_induct [rotated 1, consumes 1])
  case (1 read_loop E f n evs st y)
  show ?case
  proof (cases "n > 0")
    case False
    with 1(2) show ?thesis by auto
  next
    case True
    from 1(2) True obtain rv chunk st' where
      r: "File_read E f (Some (sint (ucast n :: 32 word))) st = Some (rv, chunk, st')"
      by (cases "File_read E f (Some (sint (ucast n :: 32 word))) st") auto
    show ?thesis
    proof (cases rv)
      case None
      with 1(2) r True have "read_loop E f (n - of_nat (length chunk)) (evs @ [Data chunk]) st' = Some y"
        by simp
      then have "caches_kept st' (snd (snd y))" by (rule 1(1))
      with File_read_caches [OF r] show ?thesis by (rule caches_kept_trans)
    next
      case (Some e)
      with 1(2) r True File_read_caches [OF r] show ?thesis by auto
    qed
  qed
qed

lemma getUserName_caches: "getUserName E i st = (n, st') \<Longrightarrow> caches_kept st st'"
  by (auto simp: getUserName_def caches_kept_def Let_def split: option.splits)

lemma getGroupName_caches: "getGroupName E i st = (n, st') \<Longrightarrow> caches_kept st st'"
  by (auto simp: getGroupName_def caches_kept_def Let_def split: option.splits)

lemma createUDSEntry_caches: "createUDSEntry E p d st = (e, st') \<Longrightarrow> caches_kept st st'"
  unfolding createUDSEntry_def Let_def
  by (auto split: if_splits prod.splits
      dest!: getUserName_caches getGroupName_caches intro: caches_kept_trans)

lemma list_entries_caches: "list_entries E ns d st = (evs, st') \<Longrightarrow> caches_kept st st'"
proof (induction ns arbitrary: st evs)
  case Nil
  then show ?case by simp
next
  case (Cons n ns)
  then show ?case
    by (auto split: prod.splits dest!: createUDSEntry_caches intro: caches_kept_trans)
qed

lemma checkCorrectRepository_caches:
  "checkCorrectRepository E pUrl st = (found, comps, st1) \<Longrightarrow> caches_kept st st1"
  by (auto simp: checkCorrectRepository_def discover_def Let_def caches_kept_def
      split: option.splits if_splits)

lemma get_resume_caches: "get_resume E f res st = Some (evs, p, st') \<Longrightarrow> caches_kept st st'"
  unfolding get_resume_def Let_def
  by (cases "File_seek E f 0 st")
     (auto split: if_splits option.splits prod.splits dest!: File_seek_caches
       intro: caches_kept_trans)

lemma get_caches:
  assumes "get E u res st = Some (evs, st')"
  shows "caches_kept st st'"
proof -
  obtain found comps st1 where c: "checkCorrectRepository E u st = (found, comps, st1)"
    by (cases "checkCorrectRepository E u st") auto
  note k = checkCorrectRepository_caches [OF c]
  have "caches_kept st1 st'"
    using assms c unfolding get_def
    by (auto split: if_splits option.splits prod.splits
        dest!: get_loop_caches get_resume_caches get_finish_state intro: caches_kept_trans)
  with k show ?thesis by (rule caches_kept_trans)
qed

lemma listDir_caches:
  assumes "listDir E u d st = Some (evs, st')"
  shows "caches_kept st st'"
proof -
  obtain found comps st1 where c: "checkCorrectRepository E u st = (found, comps, st1)"
    by (cases "checkCorrectRepository E u st") auto
  note k = checkCorrectRepository_caches [OF c]
  have "caches_kept st1 st'"
    using assms c unfolding listDir_def
    by (auto split: if_splits option.splits prod.splits dest!: list_entries_caches)
  with k show ?thesis by (rule caches_kept_trans)
qed

lemma stat_caches:
  assumes "stat E u d st = Some (evs, st')"
  shows "caches_kept st st'"
proof -
  obtain found comps st1 where c: "checkCorrectRepository E u st = (found, comps, st1)"
    by (cases "checkCorrectRepository E u st") auto
  note k = checkCorrectRepository_caches [OF c]
  have "caches_kept st1 st'"
    using assms c unfolding stat_def
    by (auto split: if_splits option.splits prod.splits dest!: createUDSEntry_caches)
  with k show ?thesis by (rule caches_kept_trans)
qed

lemma mimetype_caches:
  assumes "mimetype E u st = Some (evs, st')"
  shows "caches_kept st st'"
proof -
  obtain found comps st1 where c: "checkCorrectRepository E u st = (found, comps, st1)"
    by (cases "checkCorrectRepository E u st") auto
  note k = checkCorrectRepository_caches [OF c]
  have "caches_kept st1 st'"
    using assms c unfolding mimetype_def
    by (auto split: if_splits option.splits prod.splits)
  with k show ?thesis by (rule caches_kept_trans)
qed

lemma open_caches:
  assumes "open E u m st = Some (evs, st')"
  shows "caches_kept st st'"
proof (cases "m AND 2 \<noteq> 0")
  case True
  with assms show ?thesis by (simp add: open_def)
next
  case False
  obtain found comps st1 where c: "checkCorrectRepository E u st = (found, comps, st1)"
    by (cases "checkCorrectRepository E u st") auto
  note k = checkCorrectRepository_caches [OF c]
  have "caches_kept st1 st'"
    using assms c False unfolding open_def
    by (auto split: if_splits option.splits prod.splits dest!: File_seek_caches
        simp: caches_kept_def)
  with k show ?thesis by (rule caches_kept_trans)
qed

lemma read_caches: "read E n st = Some (evs, st') \<Longrightarrow> caches_kept st st'"
  unfolding read_def
  by (auto split: prod.splits if_splits option.splits dest!: read_loop_caches)

lemma seek_caches: "seek E n st = Some (evs, st') \<Longrightarrow> caches_kept st st'"
  unfolding seek_def
  by (auto split: prod.splits if_splits option.splits dest!: File_seek_caches)

lemma dispatch_caches: "dispatch E q st = Some (evs, st') \<Longrightarrow> caches_kept st st'"
  by (cases q)
     (auto dest: get_caches listDir_caches open_caches read_caches seek_caches stat_caches
        mimetype_caches simp: close_def caches_kept_def)

lemma run_caches: "run E qs st = Some (evss, st') \<Longrightarrow> caches_kept st st'"
proof (induction qs arbitrary: st evss)
  case Nil
  then show ?case by simp
next
  case (Cons q qs)
  from Cons.prems obtain evs st1 evss1 where
    d: "dispatch E q st = Some (evs, st1)" and r: "run E qs st1 = Some (evss1, st')"
    by (auto split: option.splits)
  from dispatch_caches [OF d] Cons.IH [OF r] show ?case by (rule caches_kept_trans)
qed

text \<open>
  C9. A lookup of an id that is in the cache returns the cached name and leaves the state as
  it is: the platform is not asked. A lookup of an id that is not in the cache asks the
  platform once. When the platform knows the id, the name is returned and cached, and every
  later lookup on that state returns it without a further query, whatever the platform
  would answer then. When the platform does not know the id, the decimal string of the id
  is returned, the cache is not changed, and the next lookup of the id asks the platform
  again. An id that is in the cache stays there with its name through every sequence of
  requests. The same holds for group ids.
\<close>

theorem name_cache_lookup:
  "(mUsercache st i = Some name \<longrightarrow> getUserName E i st = (name, st)) \<and>
   (mUsercache st i = None \<and> getpwuid E i = Some name \<longrightarrow>
      (\<exists>st'. getUserName E i st = (name, st') \<and> mUsercache st' = (mUsercache st)(i \<mapsto> name) \<and>
         calls st' = calls st @ [Getpwuid i] \<and>
         (\<forall>E'. getUserName E' i st' = (name, st')))) \<and>
   (mUsercache st i = None \<and> getpwuid E i = None \<longrightarrow>
      (\<exists>st'. getUserName E i st = (decimal (unat i), st') \<and> mUsercache st' = mUsercache st \<and>
         calls st' = calls st @ [Getpwuid i] \<and>
         (\<forall>E'. calls (snd (getUserName E' i st')) = calls st' @ [Getpwuid i]))) \<and>
   (mGroupcache st i = Some name \<longrightarrow> getGroupName E i st = (name, st)) \<and>
   (mGroupcache st i = None \<and> getgrgid E i = Some name \<longrightarrow>
      (\<exists>st'. getGroupName E i st = (name, st') \<and> mGroupcache st' = (mGroupcache st)(i \<mapsto> name) \<and>
         calls st' = calls st @ [Getgrgid i] \<and>
         (\<forall>E'. getGroupName E' i st' = (name, st')))) \<and>
   (mGroupcache st i = None \<and> getgrgid E i = None \<longrightarrow>
      (\<exists>st'. getGroupName E i st = (decimal (unat i), st') \<and> mGroupcache st' = mGroupcache st \<and>
         calls st' = calls st @ [Getgrgid i] \<and>
         (\<forall>E'. calls (snd (getGroupName E' i st')) = calls st' @ [Getgrgid i]))) \<and>
   (mUsercache st i = Some name \<and> run E qs st = Some (evss, st2) \<longrightarrow>
      getUserName E2 i st2 = (name, st2)) \<and>
   (mGroupcache st i = Some name \<and> run E qs st = Some (evss, st2) \<longrightarrow>
      getGroupName E2 i st2 = (name, st2))"
proof (intro conjI impI)
  show "getUserName E i st = (name, st)" if "mUsercache st i = Some name"
    using that by (rule getUserName_cached)
  show "getGroupName E i st = (name, st)" if "mGroupcache st i = Some name"
    using that by (rule getGroupName_cached)
  show "\<exists>st'. getUserName E i st = (name, st') \<and> mUsercache st' = (mUsercache st)(i \<mapsto> name) \<and>
         calls st' = calls st @ [Getpwuid i] \<and> (\<forall>E'. getUserName E' i st' = (name, st'))"
    if "mUsercache st i = None \<and> getpwuid E i = Some name"
    using that by (simp add: getUserName_def)
  show "\<exists>st'. getGroupName E i st = (name, st') \<and> mGroupcache st' = (mGroupcache st)(i \<mapsto> name) \<and>
         calls st' = calls st @ [Getgrgid i] \<and> (\<forall>E'. getGroupName E' i st' = (name, st'))"
    if "mGroupcache st i = None \<and> getgrgid E i = Some name"
    using that by (simp add: getGroupName_def)
  show "\<exists>st'. getUserName E i st = (decimal (unat i), st') \<and> mUsercache st' = mUsercache st \<and>
         calls st' = calls st @ [Getpwuid i] \<and>
         (\<forall>E'. calls (snd (getUserName E' i st')) = calls st' @ [Getpwuid i])"
    if "mUsercache st i = None \<and> getpwuid E i = None"
    using that by (simp add: getUserName_def Let_def split: option.split)
  show "\<exists>st'. getGroupName E i st = (decimal (unat i), st') \<and> mGroupcache st' = mGroupcache st \<and>
         calls st' = calls st @ [Getgrgid i] \<and>
         (\<forall>E'. calls (snd (getGroupName E' i st')) = calls st' @ [Getgrgid i])"
    if "mGroupcache st i = None \<and> getgrgid E i = None"
    using that by (simp add: getGroupName_def Let_def split: option.split)
  show "getUserName E2 i st2 = (name, st2)"
    if "mUsercache st i = Some name \<and> run E qs st = Some (evss, st2)"
  proof -
    from that run_caches [of E qs st evss st2] have "mUsercache st2 i = Some name"
      by (simp add: caches_kept_def)
    then show ?thesis by (rule getUserName_cached)
  qed
  show "getGroupName E2 i st2 = (name, st2)"
    if "mGroupcache st i = Some name \<and> run E qs st = Some (evss, st2)"
  proof -
    from that run_caches [of E qs st evss st2] have "mGroupcache st2 i = Some name"
      by (simp add: caches_kept_def)
    then show ?thesis by (rule getGroupName_cached)
  qed
qed

theorem name_cache_lookup_witness:
  "mUsercache (BupSlave :: nat slave) 1000 = None \<and> getpwuid ex_env 1000 = Some ''simon'' \<and>
   fst (getUserName ex_env 1000 BupSlave) = ''simon'' \<and>
   getUserName ex_env 1000 (snd (getUserName ex_env 1000 BupSlave)) =
     (''simon'', snd (getUserName ex_env 1000 BupSlave)) \<and>
   calls (snd (getUserName ex_env 1000 BupSlave)) = [Getpwuid 1000] \<and>
   getpwuid ex_env 4242 = None \<and>
   fst (getUserName ex_env 4242 BupSlave) = ''4242'' \<and>
   calls (snd (getUserName ex_env 4242 (snd (getUserName ex_env 4242 BupSlave)))) =
     [Getpwuid 4242, Getpwuid 4242] \<and>
   getgrgid ex_env 100 = Some ''users'' \<and>
   fst (getGroupName ex_env 100 (BupSlave :: nat slave)) = ''users''"
proof -
  let ?s = "BupSlave :: nat slave"
  have h1: "mUsercache ?s 1000 = None \<and> getpwuid ex_env 1000 = Some ''simon''"
    by (simp add: BupSlave_def ex_env_def)
  have h2: "mUsercache ?s 4242 = None \<and> getpwuid ex_env 4242 = None"
    by (simp add: BupSlave_def ex_env_def)
  have h3: "mGroupcache ?s 100 = None \<and> getgrgid ex_env 100 = Some ''users''"
    by (simp add: BupSlave_def ex_env_def)
  have c: "calls ?s = []"
    by (simp add: BupSlave_def)
  from h1 name_cache_lookup [of ?s 1000 "''simon''" ex_env]
  obtain s1 where s1: "getUserName ex_env 1000 ?s = (''simon'', s1)"
    "calls s1 = calls ?s @ [Getpwuid 1000]" "\<forall>E'. getUserName E' 1000 s1 = (''simon'', s1)"
    by blast
  from h2 name_cache_lookup [of ?s 4242 "''x''" ex_env]
  obtain s2 where s2: "getUserName ex_env 4242 ?s = (decimal (unat (4242 :: uid_t)), s2)"
    "calls s2 = calls ?s @ [Getpwuid 4242]"
    "\<forall>E'. calls (snd (getUserName E' 4242 s2)) = calls s2 @ [Getpwuid 4242]"
    by blast
  from h3 name_cache_lookup [of ?s 100 "''users''" ex_env]
  obtain s3 where s3: "getGroupName ex_env 100 ?s = (''users'', s3)"
    by blast
  from h1 h2 h3 s1 s2 s3 c show ?thesis
    by (simp add: decimal_4242)
qed

subsection \<open>The open file\<close>























lemmas ex_defs =
  checkCorrectRepository_def BupSlave_def discover_def normalized_path_def ex_url_def
  startsWith_def split_skip_empty_def Let_def has_markers_def ex_env_def Repository_def
  Repository_resolve_def ex_resolve_def ex_node_def ex_content_def File_seek_def File_read_def
  file_state_def spec_seek_def spec_read_def ex_opened_def parse_decimal_def digit_of_def

lemma ex_open_a:
  "open ex_env (ex_url ''/backup/docs/a.txt'') 1 BupSlave =
     Some ([MimeType ''text/plain'', TotalSize 3, Position 0, Opened], ex_opened)"
  by (simp add: open_def ex_defs)









lemma ex_mimetype_other:
  "mimetype ex_env (ex_url ''/other/docs'') ex_opened =
     Some ([MimeType ''inode/directory'', Finished],
           ex_opened\<lparr>mRepository := Some \<lparr>objectName = ''/other/'', isValid = True, rid = 1\<rparr>,
             next_rid := 2, deleted := {0}\<rparr>)"
  by (simp add: mimetype_def ex_defs)

lemma ex_run_switch:
  "run ex_env [Open (ex_url ''/backup/docs/a.txt'') 1, Mimetype (ex_url ''/other/docs'')] BupSlave =
     Some ([[MimeType ''text/plain'', TotalSize 3, Position 0, Opened],
            [MimeType ''inode/directory'', Finished]],
           ex_opened\<lparr>mRepository := Some \<lparr>objectName = ''/other/'', isValid = True, rid = 1\<rparr>,
             next_rid := 2, deleted := {0}\<rparr>)"
  by (simp add: ex_open_a ex_mimetype_other)

text \<open>Whenever the locator gives up a valid repository that owns the open file, the
  open-file slot keeps its pointer, and the file it points to has been deleted with its
  repository.\<close>

lemma replaced_repository_leaves_handle:
  assumes "mOpenFile st = Some f" and "mRepository st = Some r" and "owner f = rid r"
    and "rid r < next_rid st" and "isValid r"
    and "\<not> startsWith (normalized_path pUrl) (objectName r)"
    and "checkCorrectRepository E pUrl st = (found, lPathInRepo, st1)"
  shows "mOpenFile st1 = Some f \<and> \<not> handle_owned st1 \<and> owner f \<in> deleted st1"
proof -
  let ?st = "st\<lparr>mRepository := None, deleted := insert (rid r) (deleted st)\<rparr>"
  from assms(2,6) have m: "\<not> under_open_repository st pUrl"
    by (simp add: under_open_repository_def)
  from assms(2,5) have d: "discard_repository st = ?st"
    by (simp add: discard_repository_def)
  from assms(7) have c: "discover E (normalized_path pUrl) ?st = (found, lPathInRepo, st1)"
    unfolding checkCorrectRepository_miss [OF m] d .
  show ?thesis
  proof (cases "find_root E ''/'' (split_skip_empty (normalized_path pUrl))")
    case None
    with c assms(1,3) show ?thesis
      by (auto simp: discover_def handle_owned_def)
  next
    case (Some a)
    with c assms(1,3,4) show ?thesis
      by (cases a) (auto simp: discover_def handle_owned_def Let_def Repository_def)
  qed
qed

text \<open>
  C4 (the code does not keep this). A worker opens \<open>a.txt\<close> in the archive \<open>/backup/\<close>
  and then serves a request for the archive \<open>/other/\<close>. The locator deletes the
  repository \<open>/backup/\<close> (object 0) and opens \<open>/other/\<close> (object 1), and the open-file
  slot still points at the File of object 0: the handle is not owned by the open
  repository, and the file it points to has been deleted. A read or a seek that follows
  goes through that pointer, a use after free: the call has no result, where a worker with
  an empty slot answers with an error.
\<close>

theorem stale_handle_after_switch:
  "run ex_env [Open (ex_url ''/backup/docs/a.txt'') 1, Mimetype (ex_url ''/other/docs'')] BupSlave =
     Some ([[MimeType ''text/plain'', TotalSize 3, Position 0, Opened],
            [MimeType ''inode/directory'', Finished]],
           ex_opened\<lparr>mRepository := Some \<lparr>objectName = ''/other/'', isValid = True, rid = 1\<rparr>,
             next_rid := 2, deleted := {0}\<rparr>) \<and>
   mOpenFile
     (ex_opened\<lparr>mRepository := Some \<lparr>objectName = ''/other/'', isValid = True, rid = 1\<rparr>,
        next_rid := 2, deleted := {0}\<rparr>) = Some \<lparr>owner = 0, key = 2\<rparr> \<and>
   \<not> handle_owned
     (ex_opened\<lparr>mRepository := Some \<lparr>objectName = ''/other/'', isValid = True, rid = 1\<rparr>,
        next_rid := 2, deleted := {0}\<rparr>) \<and>
   owner \<lparr>owner = 0 :: nat, key = 2 :: nat\<rparr> \<in>
     deleted
       (ex_opened\<lparr>mRepository := Some \<lparr>objectName = ''/other/'', isValid = True, rid = 1\<rparr>,
          next_rid := 2, deleted := {0}\<rparr>) \<and>
   File_read ex_env \<lparr>owner = 0, key = 2\<rparr> (Some 3)
     (ex_opened\<lparr>mRepository := Some \<lparr>objectName = ''/other/'', isValid = True, rid = 1\<rparr>,
        next_rid := 2, deleted := {0}\<rparr>) = None \<and>
   read ex_env 3
     (ex_opened\<lparr>mRepository := Some \<lparr>objectName = ''/other/'', isValid = True, rid = 1\<rparr>,
        next_rid := 2, deleted := {0}\<rparr>) = None \<and>
   seek ex_env 1
     (ex_opened\<lparr>mRepository := Some \<lparr>objectName = ''/other/'', isValid = True, rid = 1\<rparr>,
        next_rid := 2, deleted := {0}\<rparr>) = None \<and>
   run ex_env [Open (ex_url ''/backup/docs/a.txt'') 1, Mimetype (ex_url ''/other/docs''), Read 3]
     BupSlave = None \<and>
   read ex_env 3
     (ex_opened\<lparr>mRepository := Some \<lparr>objectName = ''/other/'', isValid = True, rid = 1\<rparr>,
        next_rid := 2, deleted := {0}, mOpenFile := None\<rparr>) =
     Some ([Error ERR_COULD_NOT_READ []],
       ex_opened\<lparr>mRepository := Some \<lparr>objectName = ''/other/'', isValid = True, rid = 1\<rparr>,
        next_rid := 2, deleted := {0}, mOpenFile := None\<rparr>)"
proof -
  let ?st = "ex_opened\<lparr>mRepository := Some \<lparr>objectName = ''/other/'', isValid = True, rid = 1\<rparr>,
        next_rid := 2, deleted := {0}\<rparr>"
  have r: "read ex_env 3 ?st = None"
    by (simp add: read_def read_loop.simps ex_defs)
  have q: "run ex_env [Open (ex_url ''/backup/docs/a.txt'') 1, Mimetype (ex_url ''/other/docs''),
       Read 3] BupSlave = None"
    using r by (simp add: ex_open_a ex_mimetype_other)
  have m: "mOpenFile ?st = Some \<lparr>owner = 0, key = 2\<rparr>"
    by (simp add: ex_opened_def)
  have h: "\<not> handle_owned ?st"
    by (simp add: handle_owned_def ex_opened_def)
  have d: "owner \<lparr>owner = 0 :: nat, key = 2 :: nat\<rparr> \<in> deleted ?st"
    by simp
  have f: "File_read ex_env \<lparr>owner = 0, key = 2\<rparr> (Some 3) ?st = None"
    by (simp add: File_read_def)
  have s: "seek ex_env 1 ?st = None"
    by (simp add: seek_def File_seek_def ex_opened_def)
  have e: "read ex_env 3 (?st\<lparr>mOpenFile := None\<rparr>) =
     Some ([Error ERR_COULD_NOT_READ []], ?st\<lparr>mOpenFile := None\<rparr>)"
    by (simp add: read_def)
  show ?thesis
    by (intro conjI) (fact ex_run_switch m h d f r s q e)+
qed

text \<open>Whatever the store: a non-zero return value of the first read call is answered with
  an error and nothing else, also when it is the end-of-data value.\<close>

lemma read_store_error:
  assumes "mOpenFile st = Some f" and "pSize \<noteq> 0"
    and "File_read E f (Some (sint (ucast pSize :: 32 word))) st = Some (Some e, chunk, st')"
  shows "read E pSize st = Some ([Error e (completePath E f)], st')"
proof -
  from assms(2) have "pSize > 0" by (simp add: word_greater_zero_iff)
  with assms(3) have "read_loop E f pSize [] st = Some (Some e, [], st')"
    by (subst read_loop.simps) simp
  with assms(1) show ?thesis by (simp add: read_def)
qed

text \<open>
  C2 (the code does not keep this). With \<open>a.txt\<close> (3 bytes) open at position 0, a read
  of at most 4 bytes gets the 3 bytes and, the budget not being used up, asks the store
  again; the store answers end of data, and the worker emits the error \<open>ERR_NO_CONTENT\<close>
  in place of the empty chunk and \<open>finished\<close>. The same answer of the store ends a \<open>get\<close>
  of the file with the empty chunk and \<open>finished\<close>.
\<close>

theorem read_at_end_of_data:
  "map_option fst (read ex_env 4 ex_opened) = Some [Data ''abc'', Error ERR_NO_CONTENT ''a.txt''] \<and>
   map_option fst (get ex_env (ex_url ''/backup/docs/a.txt'') [] BupSlave) =
     Some [MimeType ''text/plain'', TotalSize 3, Data ''abc'', ProcessedSize 3,
           Data [], ProcessedSize 3, Finished]"
  by (simp add: read_def read_loop.simps get_def get_resume_def get_finish_def get_loop.simps
      ex_defs)


subsection \<open>The transfer loop and the kinds of nodes\<close>

lemma get_loop_events:
  "get_loop E f p evs st = Some y \<Longrightarrow>
     \<exists>cs. fst (snd (snd y)) = evs @ progress p cs \<and>
          fst (snd y) = p + of_nat (length (concat cs))"
proof (induction rule: get_loop.raw_induct [rotated 1, consumes 1])
  case (1 get_loop E f p evs st y)
  from 1(2) obtain rv chunk st' where r: "File_read E f None st = Some (rv, chunk, st')"
    by (cases "File_read E f None st") auto
  show ?case
  proof (cases rv)
    case None
    let ?p = "p + of_nat (length chunk)"
    from None 1(2) r have "get_loop E f ?p (evs @ [Data chunk, ProcessedSize ?p]) st' = Some y"
      by simp
    from 1(1) [OF this] obtain cs where
      cs: "fst (snd (snd y)) = (evs @ [Data chunk, ProcessedSize ?p]) @ progress ?p cs"
        "fst (snd y) = ?p + of_nat (length (concat cs))"
      by blast
    have "fst (snd (snd y)) = evs @ progress p (chunk # cs)"
      using cs(1) by simp
    moreover have "fst (snd y) = p + of_nat (length (concat (chunk # cs)))"
      using cs(2) by (simp add: add.assoc)
    ultimately show ?thesis by blast
  next
    case (Some e)
    with 1(2) r have "y = (e, p, evs, st')" by simp
    then have "fst (snd (snd y)) = evs @ progress p [] \<and>
          fst (snd y) = p + of_nat (length (concat ([] :: string list)))"
      by simp
    then show ?thesis by blast
  qed
qed






lemma get_finish_events:
  "fst (get_finish p (a, b, c, d)) = fst (get_finish p (a, b, c, d'))"
  by (simp add: get_finish_def)

lemma get_file:
  assumes "checkCorrectRepository E pUrl st = (True, lPathInRepo, st1)"
    and "mRepository st1 = Some r"
    and "Repository_resolve E r lPathInRepo True = Some f"
    and "kind (node_of E f) = File"
  shows "get E pUrl res st =
     (case get_resume E f res st1 of
        None \<Rightarrow> None
      | Some (resumed, base, st2) \<Rightarrow>
          map_option (get_finish lPathInRepo)
            (get_loop E f base
               ([MimeType (mMimeType (node_of E f)), TotalSize (fsize E f)] @ resumed) st2))"
  using assms by (simp add: get_def)

lemma get_file_events:
  assumes "checkCorrectRepository E pUrl st = (True, lPathInRepo, st1)"
    and "mRepository st1 = Some r"
    and "Repository_resolve E r lPathInRepo True = Some f"
    and "kind (node_of E f) = File"
    and "get E pUrl res st = Some (evs, st')"
  shows "\<exists>resumed base st2 cs lRetVal.
     get_resume E f res st1 = Some (resumed, base, st2) \<and>
     get_loop E f base ([MimeType (mMimeType (node_of E f)), TotalSize (fsize E f)] @ resumed) st2 =
       Some (lRetVal, base + of_nat (length (concat cs)),
             [MimeType (mMimeType (node_of E f)), TotalSize (fsize E f)] @ resumed @ progress base cs,
             st') \<and>
     evs = [MimeType (mMimeType (node_of E f)), TotalSize (fsize E f)] @ resumed @ progress base cs @
        (if lRetVal = ERR_NO_CONTENT
         then [Data [], ProcessedSize (base + of_nat (length (concat cs))), Finished]
         else [Error lRetVal (join ''/'' lPathInRepo)])"
proof -
  let ?h = "[MimeType (mMimeType (node_of E f)), TotalSize (fsize E f)]"
  from assms(5) obtain resumed base st2 where
    gr: "get_resume E f res st1 = Some (resumed, base, st2)"
    unfolding get_file [OF assms(1-4)] by (auto split: option.splits)
  from assms(5) obtain y where y: "get_loop E f base (?h @ resumed) st2 = Some y"
    and fin: "get_finish lPathInRepo y = (evs, st')"
    unfolding get_file [OF assms(1-4)] gr by auto
  obtain lRetVal p' evs' st3 where yy: "y = (lRetVal, p', evs', st3)"
    by (cases y) auto
  from get_loop_events [OF y] yy obtain cs where
    cs: "evs' = (?h @ resumed) @ progress base cs" "p' = base + of_nat (length (concat cs))"
    by auto
  from fin yy have s: "st' = st3"
    by (simp add: get_finish_def split: if_splits)
  from fin yy have "evs = evs' @
        (if lRetVal = ERR_NO_CONTENT then [Data [], ProcessedSize p', Finished]
         else [Error lRetVal (join ''/'' lPathInRepo)])"
    by (simp add: get_finish_def split: if_splits)
  with cs have e: "evs = ?h @ resumed @ progress base cs @
        (if lRetVal = ERR_NO_CONTENT
         then [Data [], ProcessedSize (base + of_nat (length (concat cs))), Finished]
         else [Error lRetVal (join ''/'' lPathInRepo)])"
    by simp
  from y yy cs s have l: "get_loop E f base (?h @ resumed) st2 =
       Some (lRetVal, base + of_nat (length (concat cs)), ?h @ resumed @ progress base cs, st')"
    by simp
  show ?thesis
    by (intro exI [of _ resumed] exI [of _ base] exI [of _ st2] exI [of _ cs]
        exI [of _ lRetVal] conjI) (fact gr l e)+
qed

lemma ex_check_docs:
  "checkCorrectRepository ex_env (ex_url ''/backup/docs'') BupSlave = (True, [''docs''], ex_located)"
  by (simp add: ex_defs ex_located_def)

lemma ex_check_a:
  "checkCorrectRepository ex_env (ex_url ''/backup/docs/a.txt'') BupSlave =
     (True, [''docs'', ''a.txt''], ex_located)"
  by (simp add: ex_defs ex_located_def)

lemma ex_check_missing:
  "checkCorrectRepository ex_env (ex_url ''/backup/missing'') BupSlave =
     (True, [''missing''], ex_located)"
  by (simp add: ex_defs ex_located_def)

lemma ex_resolve_facts:
  "Repository_resolve ex_env \<lparr>objectName = ''/backup/'', isValid = True, rid = 0\<rparr> [''docs''] True =
     Some \<lparr>owner = 0, key = 1\<rparr>"
  "Repository_resolve ex_env \<lparr>objectName = ''/backup/'', isValid = True, rid = 0\<rparr>
     [''docs'', ''a.txt''] True = Some \<lparr>owner = 0, key = 2\<rparr>"
  "Repository_resolve ex_env \<lparr>objectName = ''/backup/'', isValid = True, rid = 0\<rparr>
     [''missing''] True = None"
  "kind (node_of ex_env \<lparr>owner = 0, key = 1\<rparr>) = Directory"
  "kind (node_of ex_env \<lparr>owner = 0, key = 2\<rparr>) = File"
  by (simp_all add: ex_defs)

text \<open>
  C6. Once the repository of a request is located: when the path resolves to a Directory,
  \<open>get\<close> and \<open>open\<close> (in read mode) answer with the single error \<open>ERR_IS_DIRECTORY\<close>; when
  it resolves to a node that is not a Directory, \<open>listDir\<close> answers with the single error
  \<open>ERR_IS_FILE\<close>; and each of \<open>get\<close>, \<open>listDir\<close>, \<open>open\<close>, \<open>stat\<close> and \<open>mimetype\<close>
  answers with the single error \<open>ERR_DOES_NOT_EXIST\<close> exactly when the path resolves to no
  node.
\<close>

theorem type_mismatch_errors:
  assumes "checkCorrectRepository E pUrl st = (True, lPathInRepo, st1)"
  shows "\<exists>r. mRepository st1 = Some r \<and>
     (\<forall>n. Repository_resolve E r lPathInRepo True = Some n \<and> kind (node_of E n) = Directory \<longrightarrow>
        get E pUrl res st = Some ([Error ERR_IS_DIRECTORY (join ''/'' lPathInRepo)], st1) \<and>
        (pMode AND 2 = 0 \<longrightarrow>
           open E pUrl pMode st = Some ([Error ERR_IS_DIRECTORY (join ''/'' lPathInRepo)], st1))) \<and>
     (\<forall>n. Repository_resolve E r lPathInRepo True = Some n \<and> kind (node_of E n) \<noteq> Directory \<longrightarrow>
        listDir E pUrl sDetails st = Some ([Error ERR_IS_FILE (join ''/'' lPathInRepo)], st1)) \<and>
     ((\<exists>msg st'. get E pUrl res st = Some ([Error ERR_DOES_NOT_EXIST msg], st')) \<longleftrightarrow>
        Repository_resolve E r lPathInRepo True = None) \<and>
     ((\<exists>msg st'. listDir E pUrl sDetails st = Some ([Error ERR_DOES_NOT_EXIST msg], st')) \<longleftrightarrow>
        Repository_resolve E r lPathInRepo True = None) \<and>
     (pMode AND 2 = 0 \<longrightarrow>
        ((\<exists>msg st'. open E pUrl pMode st = Some ([Error ERR_DOES_NOT_EXIST msg], st')) \<longleftrightarrow>
           Repository_resolve E r lPathInRepo True = None)) \<and>
     ((\<exists>msg st'. stat E pUrl sDetails st = Some ([Error ERR_DOES_NOT_EXIST msg], st')) \<longleftrightarrow>
        Repository_resolve E r lPathInRepo False = None) \<and>
     ((\<exists>msg st'. mimetype E pUrl st = Some ([Error ERR_DOES_NOT_EXIST msg], st')) \<longleftrightarrow>
        Repository_resolve E r lPathInRepo False = None)"
proof -
  from checkCorrectRepository_found [OF assms] obtain r where r: "mRepository st1 = Some r"
    by blast
  have g: "(\<exists>msg st'. get E pUrl res st = Some ([Error ERR_DOES_NOT_EXIST msg], st')) \<longleftrightarrow>
        Repository_resolve E r lPathInRepo True = None"
  proof (cases "Repository_resolve E r lPathInRepo True")
    case None
    with assms r show ?thesis by (simp add: get_def)
  next
    case (Some f)
    show ?thesis
    proof (cases "kind (node_of E f) = File")
      case False
      with assms r Some show ?thesis by (simp add: get_def)
    next
      case True
      have "evs \<noteq> [Error ERR_DOES_NOT_EXIST msg]" if "get E pUrl res st = Some (evs, st')"
        for evs st' msg
        using get_file_events [OF assms r Some True that] by auto
      with Some show ?thesis by auto
    qed
  qed
  have l: "(\<exists>msg st'. listDir E pUrl sDetails st = Some ([Error ERR_DOES_NOT_EXIST msg], st')) \<longleftrightarrow>
        Repository_resolve E r lPathInRepo True = None"
    using assms r by (auto simp: listDir_def split: option.splits prod.splits)
  have o: "pMode AND 2 = 0 \<longrightarrow>
        ((\<exists>msg st'. open E pUrl pMode st = Some ([Error ERR_DOES_NOT_EXIST msg], st')) \<longleftrightarrow>
           Repository_resolve E r lPathInRepo True = None)"
    using assms r by (auto simp: open_def split: option.splits prod.splits)
  have s: "(\<exists>msg st'. stat E pUrl sDetails st = Some ([Error ERR_DOES_NOT_EXIST msg], st')) \<longleftrightarrow>
        Repository_resolve E r lPathInRepo False = None"
    using assms r by (auto simp: stat_def split: option.splits prod.splits)
  have m: "(\<exists>msg st'. mimetype E pUrl st = Some ([Error ERR_DOES_NOT_EXIST msg], st')) \<longleftrightarrow>
        Repository_resolve E r lPathInRepo False = None"
    using assms r by (auto simp: mimetype_def split: option.splits prod.splits)
  have d: "\<forall>n. Repository_resolve E r lPathInRepo True = Some n \<and> kind (node_of E n) = Directory \<longrightarrow>
        get E pUrl res st = Some ([Error ERR_IS_DIRECTORY (join ''/'' lPathInRepo)], st1) \<and>
        (pMode AND 2 = 0 \<longrightarrow>
           open E pUrl pMode st = Some ([Error ERR_IS_DIRECTORY (join ''/'' lPathInRepo)], st1))"
    using assms r by (simp add: get_def open_def)
  have f: "\<forall>n. Repository_resolve E r lPathInRepo True = Some n \<and> kind (node_of E n) \<noteq> Directory \<longrightarrow>
        listDir E pUrl sDetails st = Some ([Error ERR_IS_FILE (join ''/'' lPathInRepo)], st1)"
    using assms r by (simp add: listDir_def)
  show ?thesis
    by (intro exI [of _ r] conjI) (fact r d f g l o s m)+
qed


theorem type_mismatch_errors_witness:
  "checkCorrectRepository ex_env (ex_url ''/backup/docs'') BupSlave = (True, [''docs''], ex_located) \<and>
   get ex_env (ex_url ''/backup/docs'') [] BupSlave =
     Some ([Error ERR_IS_DIRECTORY ''docs''], ex_located) \<and>
   open ex_env (ex_url ''/backup/docs'') 1 BupSlave =
     Some ([Error ERR_IS_DIRECTORY ''docs''], ex_located) \<and>
   listDir ex_env (ex_url ''/backup/docs/a.txt'') [] BupSlave =
     Some ([Error ERR_IS_FILE ''docs/a.txt''], ex_located) \<and>
   (\<exists>msg st'. get ex_env (ex_url ''/backup/missing'') [] BupSlave =
      Some ([Error ERR_DOES_NOT_EXIST msg], st'))"
proof -
  let ?r = "\<lparr>objectName = ''/backup/'', isValid = True, rid = 0\<rparr>"
  have m: "mRepository ex_located = Some ?r"
    by (simp add: ex_located_def)
  from type_mismatch_errors [OF ex_check_docs, of "[]" 1 "[]"] m ex_resolve_facts
  have a: "get ex_env (ex_url ''/backup/docs'') [] BupSlave =
       Some ([Error ERR_IS_DIRECTORY ''docs''], ex_located) \<and>
     open ex_env (ex_url ''/backup/docs'') 1 BupSlave =
       Some ([Error ERR_IS_DIRECTORY ''docs''], ex_located)"
    by auto
  from type_mismatch_errors [OF ex_check_a, of "[]" 1 "[]"] m ex_resolve_facts
  have b: "listDir ex_env (ex_url ''/backup/docs/a.txt'') [] BupSlave =
     Some ([Error ERR_IS_FILE ''docs/a.txt''], ex_located)"
    by auto
  from type_mismatch_errors [OF ex_check_missing, of "[]" 1 "[]"] m ex_resolve_facts
  have c: "\<exists>msg st'. get ex_env (ex_url ''/backup/missing'') [] BupSlave =
      Some ([Error ERR_DOES_NOT_EXIST msg], st')"
    by auto
  from ex_check_docs a b c show ?thesis by blast
qed


subsection \<open>Full transfers\<close>

lemma reports_append: "reports (xs @ ys) = reports xs @ reports ys"
  by (induction xs rule: reports.induct) simp_all

lemma Finished_notin_progress: "Finished \<notin> set (progress p cs)"
  by (induction cs arbitrary: p) simp_all


lemma length_reports_progress: "length (reports (progress p cs)) = length cs"
  by (induction cs arbitrary: p) simp_all

lemma last_reports_progress:
  "cs \<noteq> [] \<Longrightarrow> last (reports (progress p cs)) = p + of_nat (length (concat cs))"
proof (induction cs arbitrary: p)
  case Nil
  then show ?case by simp
next
  case (Cons c cs)
  show ?case
  proof (cases "cs = []")
    case True
    then show ?thesis by simp
  next
    case False
    then have "reports (progress (p + of_nat (length c)) cs) \<noteq> []"
      using length_reports_progress [of "p + of_nat (length c)" cs] by auto
    with Cons.IH [OF False, of "p + of_nat (length c)"] show ?thesis
      by (simp add: add.assoc)
  qed
qed

lemma unat_add_of_nat:
  "unat p + n < 2 ^ 64 \<Longrightarrow> unat (p + of_nat n :: 64 word) = unat p + n"
  by (simp add: unat_word_ariths unat_of_nat)

lemma reports_progress_sorted:
  "unat p + length (concat cs) < 2 ^ 64 \<Longrightarrow>
     sorted (map unat (reports (progress p cs))) \<and>
     (\<forall>q \<in> set (reports (progress p cs)). unat p \<le> unat q \<and> unat q \<le> unat p + length (concat cs))"
proof (induction cs arbitrary: p)
  case Nil
  then show ?case by simp
next
  case (Cons c cs)
  let ?p = "p + of_nat (length c)"
  from Cons.prems have b: "unat p + length c < 2 ^ 64" by simp
  have u: "unat ?p = unat p + length c"
    using b by (rule unat_add_of_nat)
  from Cons.prems u have "unat ?p + length (concat cs) < 2 ^ 64" by simp
  from Cons.IH [OF this] u show ?case by auto
qed

lemma get_resume_cases:
  "get_resume E f res st = Some (resumed, base, st2) \<Longrightarrow>
     resumed = [] \<and> base = 0 \<or> resumed = [CanResume]"
  unfolding get_resume_def
  by (cases "File_seek E f 0 st") (auto split: if_splits option.splits prod.splits)

lemma get_Finished_file:
  assumes "get E pUrl res st = Some (evs, st')" and "Finished \<in> set evs"
  shows "\<exists>lPathInRepo st1 r f.
     checkCorrectRepository E pUrl st = (True, lPathInRepo, st1) \<and> mRepository st1 = Some r \<and>
     Repository_resolve E r lPathInRepo True = Some f \<and> kind (node_of E f) = File"
proof -
  obtain found lPathInRepo st1 where c: "checkCorrectRepository E pUrl st = (found, lPathInRepo, st1)"
    by (cases "checkCorrectRepository E pUrl st") auto
  have found: found
    using assms c by (cases found) (auto simp: get_def)
  with c checkCorrectRepository_found [of E pUrl st lPathInRepo st1]
  obtain r where r: "mRepository st1 = Some r" by auto
  from assms c found r obtain f where f: "Repository_resolve E r lPathInRepo True = Some f"
    by (cases "Repository_resolve E r lPathInRepo True") (auto simp: get_def)
  from assms c found r f have "kind (node_of E f) = File"
    by (cases "kind (node_of E f) = File") (auto simp: get_def)
  with c found r f show ?thesis by auto
qed










lemma ex_get_resumed:
  "map_option fst (get ex_env (ex_url ''/backup/docs/a.txt'') ''1'' BupSlave) =
     Some [MimeType ''text/plain'', TotalSize 3, CanResume, Data ''bc'', ProcessedSize 3,
           Data [], ProcessedSize 3, Finished]"
  by (simp add: get_def get_resume_def get_finish_def get_loop.simps ex_defs)

lemma ex_get_full:
  "map_option fst (get ex_env (ex_url ''/backup/docs/a.txt'') [] BupSlave) =
     Some [MimeType ''text/plain'', TotalSize 3, Data ''abc'', ProcessedSize 3,
           Data [], ProcessedSize 3, Finished]"
  by (simp add: get_def get_resume_def get_finish_def get_loop.simps ex_defs)










text \<open>
  C8, as amended. A \<open>get\<close> that ends with \<open>finished\<close> has emitted, in this order: the MIME
  type, the total size, \<open>canResume\<close> or nothing, the data chunks, each followed by the
  processed size (the baseline plus the bytes emitted so far, in 64-bit arithmetic), and
  last an empty chunk, the processed size once more and \<open>finished\<close>. The baseline is 0
  when \<open>canResume\<close> was not emitted. The processed size after the last empty chunk repeats
  the one reported before it, so the reported sequence is not strictly increasing; it is
  non-decreasing as long as the count stays below \<open>2^64\<close>.
\<close>

theorem get_emission_order:
  assumes "get E pUrl res st = Some (evs, st')" and "Finished \<in> set evs"
  shows "\<exists>m n resumed base cs.
     evs = [MimeType m, TotalSize n] @ resumed @ progress base cs @
           [Data [], ProcessedSize (base + of_nat (length (concat cs))), Finished] \<and>
     (resumed = [] \<and> base = 0 \<or> resumed = [CanResume]) \<and>
     reports evs = reports (progress base cs) @ [base + of_nat (length (concat cs))] \<and>
     length (reports (progress base cs)) = length cs \<and>
     (cs \<noteq> [] \<longrightarrow> last (reports (progress base cs)) = base + of_nat (length (concat cs))) \<and>
     (unat base + length (concat cs) < 2 ^ 64 \<longrightarrow> sorted (map unat (reports evs)))"
proof -
  from get_Finished_file [OF assms] obtain lPathInRepo st1 r f where
    l: "checkCorrectRepository E pUrl st = (True, lPathInRepo, st1)" "mRepository st1 = Some r"
      "Repository_resolve E r lPathInRepo True = Some f" "kind (node_of E f) = File"
    by blast
  let ?m = "mMimeType (node_of E f)" and ?n = "fsize E f"
  from get_file_events [OF l assms(1)] obtain resumed base st2 cs lRetVal where
    g: "get_resume E f res st1 = Some (resumed, base, st2)" and
    e: "evs = [MimeType ?m, TotalSize ?n] @ resumed @ progress base cs @
        (if lRetVal = ERR_NO_CONTENT
         then [Data [], ProcessedSize (base + of_nat (length (concat cs))), Finished]
         else [Error lRetVal (join ''/'' lPathInRepo)])"
    by blast
  note rc = get_resume_cases [OF g]
  let ?t = "base + of_nat (length (concat cs))"
  have ok: "lRetVal = ERR_NO_CONTENT"
  proof (rule ccontr)
    assume "lRetVal \<noteq> ERR_NO_CONTENT"
    with e rc have "Finished \<notin> set evs"
      by (auto simp: Finished_notin_progress)
    with assms(2) show False by simp
  qed
  with e have e1: "evs = [MimeType ?m, TotalSize ?n] @ resumed @ progress base cs @
           [Data [], ProcessedSize ?t, Finished]"
    by simp
  have rp: "reports evs = reports (progress base cs) @ [?t]"
    unfolding e1 using rc by (auto simp: reports_append)
  have srt: "sorted (map unat (reports evs))" if "unat base + length (concat cs) < 2 ^ 64"
  proof -
    from reports_progress_sorted [OF that] unat_add_of_nat [OF that] show ?thesis
      unfolding rp by (auto simp: sorted_append)
  qed
  from e1 rc rp srt last_reports_progress [of cs base] length_reports_progress [of base cs]
  show ?thesis by blast
qed


theorem get_emission_order_witness:
  "map_option fst (get ex_env (ex_url ''/backup/docs/a.txt'') ''1'' BupSlave) =
     Some [MimeType ''text/plain'', TotalSize 3, CanResume, Data ''bc'', ProcessedSize 3,
           Data [], ProcessedSize 3, Finished] \<and>
   Finished \<in> set [MimeType ''text/plain'', TotalSize 3, CanResume, Data ''bc'', ProcessedSize 3,
           Data [], ProcessedSize 3, Finished] \<and>
   (\<exists>m n resumed base cs.
     [MimeType ''text/plain'', TotalSize 3, CanResume, Data ''bc'', ProcessedSize 3,
           Data [], ProcessedSize 3, Finished] =
        [MimeType m, TotalSize n] @ resumed @ progress base cs @
           [Data [], ProcessedSize (base + of_nat (length (concat cs))), Finished] \<and>
     (unat base + length (concat cs) < 2 ^ 64 \<longrightarrow>
        sorted (map unat (reports [MimeType ''text/plain'', TotalSize 3, CanResume, Data ''bc'',
           ProcessedSize 3, Data [], ProcessedSize 3, Finished])))) \<and>
   sorted (map unat (reports [MimeType ''text/plain'', TotalSize 3, CanResume, Data ''bc'',
           ProcessedSize 3, Data [], ProcessedSize 3, Finished]))"
proof -
  let ?evs = "[MimeType ''text/plain'', TotalSize 3, CanResume, Data ''bc'', ProcessedSize 3,
           Data [], ProcessedSize 3, Finished]"
  from ex_get_resumed obtain st' where
    g: "get ex_env (ex_url ''/backup/docs/a.txt'') ''1'' BupSlave = Some (?evs, st')"
    by auto
  have f: "Finished \<in> set ?evs" by simp
  from get_emission_order [OF g f]
  have "\<exists>m n resumed base cs.
     ?evs = [MimeType m, TotalSize n] @ resumed @ progress base cs @
           [Data [], ProcessedSize (base + of_nat (length (concat cs))), Finished] \<and>
     (unat base + length (concat cs) < 2 ^ 64 \<longrightarrow> sorted (map unat (reports ?evs)))"
    by blast
  moreover have "sorted (map unat (reports ?evs))" by simp
  ultimately show ?thesis using ex_get_resumed f by blast
qed

text \<open>
  C8 as stated fails: a \<open>get\<close> of the 3-byte file \<open>a.txt\<close> reports the processed sizes
  3 and 3.
\<close>

theorem processed_size_repeats_counterexample:
  "map_option fst (get ex_env (ex_url ''/backup/docs/a.txt'') [] BupSlave) =
     Some [MimeType ''text/plain'', TotalSize 3, Data ''abc'', ProcessedSize 3,
           Data [], ProcessedSize 3, Finished] \<and>
   reports [MimeType ''text/plain'', TotalSize 3, Data ''abc'', ProcessedSize 3,
           Data [], ProcessedSize 3, Finished] = [3, 3] \<and>
   \<not> sorted_wrt (<) [3 :: filesize_t, 3]"
  by (simp add: ex_get_full)


subsection \<open>The entry encoder\<close>

lemma createUDSEntry_level0:
  assumes "pDetails \<le> 0"
  shows "createUDSEntry E pNode pDetails st =
     ((UDS_NAME, UDS_Str (nodeName (node_of E pNode))) #
      (if mSymlinkTarget (node_of E pNode) \<noteq> []
       then [(UDS_LINK_DEST, UDS_Str (mSymlinkTarget (node_of E pNode)))] else []) @
      [(UDS_FILE_TYPE, UDS_Num (mMode (node_of E pNode) AND S_IFMT)),
       (UDS_ACCESS, UDS_Num (mMode (node_of E pNode) AND 0xFFF))], st)"
  using assms by (simp add: createUDSEntry_def Let_def)

lemma createUDSEntry_own:
  assumes "pDetails > 0"
    and "mSymlinkTarget (node_of E pNode) = [] \<or> pDetails \<le> 1 \<or>
         node_resolve E (parent E pNode) (mSymlinkTarget (node_of E pNode)) True = None"
  shows "createUDSEntry E pNode pDetails st =
     ((UDS_NAME, UDS_Str (nodeName (node_of E pNode))) #
      (if mSymlinkTarget (node_of E pNode) \<noteq> []
       then [(UDS_LINK_DEST, UDS_Str (mSymlinkTarget (node_of E pNode)))] else []) @
      [(UDS_FILE_TYPE, UDS_Num (mMode (node_of E pNode) AND S_IFMT)),
       (UDS_ACCESS, UDS_Num (mMode (node_of E pNode) AND 0xFFF)),
       (UDS_SIZE, UDS_Num (if kind (node_of E pNode) = File then fsize E pNode else 0)),
       (UDS_MIME_TYPE, UDS_Str (mMimeType (node_of E pNode))),
       (UDS_ACCESS_TIME, UDS_Num (mAtime (node_of E pNode))),
       (UDS_MODIFICATION_TIME, UDS_Num (mMtime (node_of E pNode))),
       (UDS_USER, UDS_Str (fst (getUserName E (ucast (mUid (node_of E pNode))) st))),
       (UDS_GROUP, UDS_Str (fst (getGroupName E (ucast (mGid (node_of E pNode)))
                                   (snd (getUserName E (ucast (mUid (node_of E pNode))) st)))))],
      snd (getGroupName E (ucast (mGid (node_of E pNode)))
             (snd (getUserName E (ucast (mUid (node_of E pNode))) st))))"
  using assms by (auto simp: createUDSEntry_def Let_def split: prod.splits)

lemma createUDSEntry_target:
  assumes "pDetails > 1" and "mSymlinkTarget (node_of E pNode) \<noteq> []"
    and "node_resolve E (parent E pNode) (mSymlinkTarget (node_of E pNode)) True = Some t"
  shows "createUDSEntry E pNode pDetails st =
     ([(UDS_NAME, UDS_Str (nodeName (node_of E pNode))),
       (UDS_LINK_DEST, UDS_Str (mSymlinkTarget (node_of E pNode))),
       (UDS_FILE_TYPE, UDS_Num (mMode (node_of E t) AND S_IFMT)),
       (UDS_ACCESS, UDS_Num (mMode (node_of E t) AND 0xFFF)),
       (UDS_SIZE, UDS_Num (if kind (node_of E t) = File then fsize E t else 0)),
       (UDS_MIME_TYPE, UDS_Str (mMimeType (node_of E t))),
       (UDS_ACCESS_TIME, UDS_Num (mAtime (node_of E t))),
       (UDS_MODIFICATION_TIME, UDS_Num (mMtime (node_of E t))),
       (UDS_USER, UDS_Str (fst (getUserName E (ucast (mUid (node_of E t))) st))),
       (UDS_GROUP, UDS_Str (fst (getGroupName E (ucast (mGid (node_of E t)))
                                   (snd (getUserName E (ucast (mUid (node_of E t))) st)))))],
      snd (getGroupName E (ucast (mGid (node_of E t)))
             (snd (getUserName E (ucast (mUid (node_of E t))) st))))"
  using assms by (auto simp: createUDSEntry_def Let_def split: prod.splits)

lemma ex_link_facts:
  "mSymlinkTarget (node_of ex_env \<lparr>owner = 0, key = 3\<rparr>) = ''docs/a.txt''"
  "node_resolve ex_env (parent ex_env \<lparr>owner = 0, key = 3\<rparr>) ''docs/a.txt'' True =
     Some \<lparr>owner = 0, key = 2\<rparr>"
  "mSymlinkTarget (node_of ex_env \<lparr>owner = 0, key = 4\<rparr>) = ''nowhere''"
  "node_resolve ex_env (parent ex_env \<lparr>owner = 0, key = 4\<rparr>) ''nowhere'' True = None"
  by (simp_all add: ex_defs)

lemma ex_entry_values:
  "fst (createUDSEntry ex_env \<lparr>owner = 0, key = 3\<rparr> 0 BupSlave) =
     [(UDS_NAME, UDS_Str ''link''), (UDS_LINK_DEST, UDS_Str ''docs/a.txt''),
      (UDS_FILE_TYPE, UDS_Num 0xA000), (UDS_ACCESS, UDS_Num 0x1FF)]"
  "fst (createUDSEntry ex_env \<lparr>owner = 0, key = 3\<rparr> 1 BupSlave) =
     [(UDS_NAME, UDS_Str ''link''), (UDS_LINK_DEST, UDS_Str ''docs/a.txt''),
      (UDS_FILE_TYPE, UDS_Num 0xA000), (UDS_ACCESS, UDS_Num 0x1FF),
      (UDS_SIZE, UDS_Num 0), (UDS_MIME_TYPE, UDS_Str ''inode/symlink''),
      (UDS_ACCESS_TIME, UDS_Num 1500000000), (UDS_MODIFICATION_TIME, UDS_Num 1400000000),
      (UDS_USER, UDS_Str ''4242''), (UDS_GROUP, UDS_Str ''users'')]"
  "fst (createUDSEntry ex_env \<lparr>owner = 0, key = 3\<rparr> 2 BupSlave) =
     [(UDS_NAME, UDS_Str ''link''), (UDS_LINK_DEST, UDS_Str ''docs/a.txt''),
      (UDS_FILE_TYPE, UDS_Num 0x8000), (UDS_ACCESS, UDS_Num 0x1A4),
      (UDS_SIZE, UDS_Num 3), (UDS_MIME_TYPE, UDS_Str ''text/plain''),
      (UDS_ACCESS_TIME, UDS_Num 1500000000), (UDS_MODIFICATION_TIME, UDS_Num 1400000000),
      (UDS_USER, UDS_Str ''simon''), (UDS_GROUP, UDS_Str ''users'')]"
  by (simp_all add: createUDSEntry_def getUserName_def getGroupName_def S_IFMT_def ex_defs
      decimal_4242)

text \<open>
  C5. A node counts as a symlink when its link target is not empty. At a detail level of 0
  or less the entry holds the name of the node, its type bits and its permission bits, the
  link destination exactly when the node is a symlink, and none of size, MIME type, times,
  owner and group; the caches are not touched. At detail level 1 the entry holds, next to
  these, the size, MIME type, times, owner and group of the node itself. At a detail level
  above 1, for a symlink whose target resolves from the parent of the node, the name and
  the link destination are those of the symlink and every other field is the one the
  encoder gives for the target at level 1; when the target does not resolve, or the node
  is no symlink, the entry is the one of level 1.
\<close>

theorem entry_detail_levels:
  "(pDetails \<le> 0 \<longrightarrow>
      (\<exists>e. createUDSEntry E pNode pDetails st = (e, st) \<and>
         map_of e UDS_NAME = Some (UDS_Str (nodeName (node_of E pNode))) \<and>
         map_of e UDS_FILE_TYPE = Some (UDS_Num (mMode (node_of E pNode) AND S_IFMT)) \<and>
         map_of e UDS_ACCESS = Some (UDS_Num (mMode (node_of E pNode) AND 0xFFF)) \<and>
         map_of e UDS_LINK_DEST =
           (if mSymlinkTarget (node_of E pNode) \<noteq> []
            then Some (UDS_Str (mSymlinkTarget (node_of E pNode))) else None) \<and>
         fst ` set e \<inter> {UDS_SIZE, UDS_MIME_TYPE, UDS_ACCESS_TIME, UDS_MODIFICATION_TIME,
                          UDS_USER, UDS_GROUP} = {})) \<and>
   (pDetails = 1 \<longrightarrow>
      (\<exists>e st'. createUDSEntry E pNode pDetails st = (e, st') \<and>
         map_of e UDS_NAME = Some (UDS_Str (nodeName (node_of E pNode))) \<and>
         map_of e UDS_LINK_DEST =
           (if mSymlinkTarget (node_of E pNode) \<noteq> []
            then Some (UDS_Str (mSymlinkTarget (node_of E pNode))) else None) \<and>
         map_of e UDS_FILE_TYPE = Some (UDS_Num (mMode (node_of E pNode) AND S_IFMT)) \<and>
         map_of e UDS_ACCESS = Some (UDS_Num (mMode (node_of E pNode) AND 0xFFF)) \<and>
         map_of e UDS_SIZE =
           Some (UDS_Num (if kind (node_of E pNode) = File then fsize E pNode else 0)) \<and>
         map_of e UDS_MIME_TYPE = Some (UDS_Str (mMimeType (node_of E pNode))) \<and>
         map_of e UDS_ACCESS_TIME = Some (UDS_Num (mAtime (node_of E pNode))) \<and>
         map_of e UDS_MODIFICATION_TIME = Some (UDS_Num (mMtime (node_of E pNode))) \<and>
         map_of e UDS_USER =
           Some (UDS_Str (fst (getUserName E (ucast (mUid (node_of E pNode))) st))) \<and>
         map_of e UDS_GROUP =
           Some (UDS_Str (fst (getGroupName E (ucast (mGid (node_of E pNode)))
                                 (snd (getUserName E (ucast (mUid (node_of E pNode))) st))))))) \<and>
   (pDetails > 1 \<and> mSymlinkTarget (node_of E pNode) \<noteq> [] \<longrightarrow>
      (\<forall>t. node_resolve E (parent E pNode) (mSymlinkTarget (node_of E pNode)) True = Some t \<longrightarrow>
         map_of (fst (createUDSEntry E pNode pDetails st)) UDS_NAME =
           Some (UDS_Str (nodeName (node_of E pNode))) \<and>
         map_of (fst (createUDSEntry E pNode pDetails st)) UDS_LINK_DEST =
           Some (UDS_Str (mSymlinkTarget (node_of E pNode))) \<and>
         attribute_fields (fst (createUDSEntry E pNode pDetails st)) =
           attribute_fields (fst (createUDSEntry E t 1 st)) \<and>
         snd (createUDSEntry E pNode pDetails st) = snd (createUDSEntry E t 1 st)) \<and>
      (node_resolve E (parent E pNode) (mSymlinkTarget (node_of E pNode)) True = None \<longrightarrow>
         createUDSEntry E pNode pDetails st = createUDSEntry E pNode 1 st)) \<and>
   (pDetails > 1 \<and> mSymlinkTarget (node_of E pNode) = [] \<longrightarrow>
      createUDSEntry E pNode pDetails st = createUDSEntry E pNode 1 st)"
proof (intro conjI impI allI)
  assume "pDetails \<le> 0"
  from createUDSEntry_level0 [OF this, of E pNode st]
  show "\<exists>e. createUDSEntry E pNode pDetails st = (e, st) \<and>
         map_of e UDS_NAME = Some (UDS_Str (nodeName (node_of E pNode))) \<and>
         map_of e UDS_FILE_TYPE = Some (UDS_Num (mMode (node_of E pNode) AND S_IFMT)) \<and>
         map_of e UDS_ACCESS = Some (UDS_Num (mMode (node_of E pNode) AND 0xFFF)) \<and>
         map_of e UDS_LINK_DEST =
           (if mSymlinkTarget (node_of E pNode) \<noteq> []
            then Some (UDS_Str (mSymlinkTarget (node_of E pNode))) else None) \<and>
         fst ` set e \<inter> {UDS_SIZE, UDS_MIME_TYPE, UDS_ACCESS_TIME, UDS_MODIFICATION_TIME,
                          UDS_USER, UDS_GROUP} = {}"
    by simp
next
  assume "pDetails = 1"
  then have "createUDSEntry E pNode pDetails st = createUDSEntry E pNode 1 st" by simp
  also note createUDSEntry_own [of 1 E pNode st]
  finally show "\<exists>e st'. createUDSEntry E pNode pDetails st = (e, st') \<and>
         map_of e UDS_NAME = Some (UDS_Str (nodeName (node_of E pNode))) \<and>
         map_of e UDS_LINK_DEST =
           (if mSymlinkTarget (node_of E pNode) \<noteq> []
            then Some (UDS_Str (mSymlinkTarget (node_of E pNode))) else None) \<and>
         map_of e UDS_FILE_TYPE = Some (UDS_Num (mMode (node_of E pNode) AND S_IFMT)) \<and>
         map_of e UDS_ACCESS = Some (UDS_Num (mMode (node_of E pNode) AND 0xFFF)) \<and>
         map_of e UDS_SIZE =
           Some (UDS_Num (if kind (node_of E pNode) = File then fsize E pNode else 0)) \<and>
         map_of e UDS_MIME_TYPE = Some (UDS_Str (mMimeType (node_of E pNode))) \<and>
         map_of e UDS_ACCESS_TIME = Some (UDS_Num (mAtime (node_of E pNode))) \<and>
         map_of e UDS_MODIFICATION_TIME = Some (UDS_Num (mMtime (node_of E pNode))) \<and>
         map_of e UDS_USER =
           Some (UDS_Str (fst (getUserName E (ucast (mUid (node_of E pNode))) st))) \<and>
         map_of e UDS_GROUP =
           Some (UDS_Str (fst (getGroupName E (ucast (mGid (node_of E pNode)))
                                 (snd (getUserName E (ucast (mUid (node_of E pNode))) st)))))"
    by simp
next
  fix t
  assume a: "pDetails > 1 \<and> mSymlinkTarget (node_of E pNode) \<noteq> []"
    and r: "node_resolve E (parent E pNode) (mSymlinkTarget (node_of E pNode)) True = Some t"
  from a have p1: "pDetails > 1" and p2: "mSymlinkTarget (node_of E pNode) \<noteq> []"
    by simp_all
  note c = createUDSEntry_target [OF p1 p2 r, of st]
  note o = createUDSEntry_own [where pDetails = 1 and pNode = t and E = E and st = st,
      OF zero_less_one disjI2 [OF disjI1 [OF order_refl]]]
  show "map_of (fst (createUDSEntry E pNode pDetails st)) UDS_NAME =
           Some (UDS_Str (nodeName (node_of E pNode)))"
    unfolding c by simp
  show "map_of (fst (createUDSEntry E pNode pDetails st)) UDS_LINK_DEST =
           Some (UDS_Str (mSymlinkTarget (node_of E pNode)))"
    unfolding c by simp
  show "attribute_fields (fst (createUDSEntry E pNode pDetails st)) =
           attribute_fields (fst (createUDSEntry E t 1 st))"
    unfolding c o by (simp add: attribute_fields_def)
  show "snd (createUDSEntry E pNode pDetails st) = snd (createUDSEntry E t 1 st)"
    unfolding c o by simp
next
  assume a: "pDetails > 1 \<and> mSymlinkTarget (node_of E pNode) \<noteq> []"
    and r: "node_resolve E (parent E pNode) (mSymlinkTarget (node_of E pNode)) True = None"
  from a have p0: "pDetails > 0" by simp
  note c = createUDSEntry_own [OF p0 disjI2 [OF disjI2 [OF r]], of st]
  note o = createUDSEntry_own [where pDetails = 1 and pNode = pNode and E = E and st = st,
      OF zero_less_one disjI2 [OF disjI1 [OF order_refl]]]
  show "createUDSEntry E pNode pDetails st = createUDSEntry E pNode 1 st"
    unfolding c o by simp
next
  assume a: "pDetails > 1 \<and> mSymlinkTarget (node_of E pNode) = []"
  then have p0: "pDetails > 0" and e: "mSymlinkTarget (node_of E pNode) = []" by simp_all
  note c = createUDSEntry_own [OF p0 disjI1 [OF e], of st]
  note o = createUDSEntry_own [where pDetails = 1 and pNode = pNode and E = E and st = st,
      OF zero_less_one disjI2 [OF disjI1 [OF order_refl]]]
  show "createUDSEntry E pNode pDetails st = createUDSEntry E pNode 1 st"
    unfolding c o by simp
qed


theorem entry_detail_levels_witness:
  "fst (createUDSEntry ex_env \<lparr>owner = 0, key = 3\<rparr> 0 BupSlave) =
     [(UDS_NAME, UDS_Str ''link''), (UDS_LINK_DEST, UDS_Str ''docs/a.txt''),
      (UDS_FILE_TYPE, UDS_Num 0xA000), (UDS_ACCESS, UDS_Num 0x1FF)] \<and>
   map_of (fst (createUDSEntry ex_env \<lparr>owner = 0, key = 3\<rparr> 1 BupSlave)) UDS_MIME_TYPE =
     Some (UDS_Str ''inode/symlink'') \<and>
   (2 :: int) > 1 \<and> mSymlinkTarget (node_of ex_env \<lparr>owner = 0, key = 3\<rparr>) \<noteq> [] \<and>
   node_resolve ex_env (parent ex_env \<lparr>owner = 0, key = 3\<rparr>)
     (mSymlinkTarget (node_of ex_env \<lparr>owner = 0, key = 3\<rparr>)) True = Some \<lparr>owner = 0, key = 2\<rparr> \<and>
   attribute_fields (fst (createUDSEntry ex_env \<lparr>owner = 0, key = 3\<rparr> 2 BupSlave)) =
     attribute_fields (fst (createUDSEntry ex_env \<lparr>owner = 0, key = 2\<rparr> 1 BupSlave)) \<and>
   map_of (fst (createUDSEntry ex_env \<lparr>owner = 0, key = 3\<rparr> 2 BupSlave)) UDS_MIME_TYPE =
     Some (UDS_Str ''text/plain'') \<and>
   node_resolve ex_env (parent ex_env \<lparr>owner = 0, key = 4\<rparr>)
     (mSymlinkTarget (node_of ex_env \<lparr>owner = 0, key = 4\<rparr>)) True = None \<and>
   createUDSEntry ex_env \<lparr>owner = 0, key = 4\<rparr> 2 (BupSlave :: nat slave) =
     createUDSEntry ex_env \<lparr>owner = 0, key = 4\<rparr> 1 BupSlave"
proof -
  let ?l = "\<lparr>owner = 0, key = 3\<rparr>" and ?d = "\<lparr>owner = 0, key = 4\<rparr>"
  let ?s = "BupSlave :: nat slave"
  have hl: "(2 :: int) > 1 \<and> mSymlinkTarget (node_of ex_env ?l) \<noteq> []"
    and rl: "node_resolve ex_env (parent ex_env ?l) (mSymlinkTarget (node_of ex_env ?l)) True =
       Some \<lparr>owner = 0, key = 2\<rparr>"
    and hd: "(2 :: int) > 1 \<and> mSymlinkTarget (node_of ex_env ?d) \<noteq> []"
    and rd: "node_resolve ex_env (parent ex_env ?d) (mSymlinkTarget (node_of ex_env ?d)) True = None"
    by (simp_all add: ex_link_facts)
  note l2 = entry_detail_levels [of 2 ex_env ?l ?s, THEN conjunct2, THEN conjunct2,
      THEN conjunct1, rule_format, OF hl, THEN conjunct1, rule_format, OF rl]
  note d2 = entry_detail_levels [of 2 ex_env ?d ?s, THEN conjunct2, THEN conjunct2,
      THEN conjunct1, rule_format, OF hd, THEN conjunct2, rule_format, OF rd]
  note c6 = l2 [THEN conjunct2, THEN conjunct2, THEN conjunct1]
  have c2: "map_of (fst (createUDSEntry ex_env ?l 1 ?s)) UDS_MIME_TYPE =
     Some (UDS_Str ''inode/symlink'')"
    unfolding ex_entry_values(2) by simp
  have c7: "map_of (fst (createUDSEntry ex_env ?l 2 ?s)) UDS_MIME_TYPE =
     Some (UDS_Str ''text/plain'')"
    unfolding ex_entry_values(3) by simp
  show ?thesis
    by (intro conjI)
      (fact ex_entry_values(1) c2 hl [THEN conjunct1] hl [THEN conjunct2] rl c6 c7 rd d2)+
qed


end
